theory Spec2Isabelle
  imports Main "HOL-Library.AList" "HOL-Library.Sublist"
begin

section \<open>Python values used by the bot\<close>

text \<open>
  Python dictionaries keep insertion order and overwrite a present key in place.
  They are association lists here, assigned with \<open>AList.update\<close>: the value of a
  present key is replaced where it stands, a new key goes to the end.  Python strings are
  \<open>string\<close>s; a character outside ASCII is written as its UTF-8 bytes, which keeps
  equality of strings as it is in Python.
\<close>

type_synonym UID = string
type_synonym addr = nat
type_synonym Loader = string
type_synonym kwargs = "(string \<times> string) list"

datatype Action = ActUp | ActDown | ActNext | ActPrev | ActCurrent

datatype KeyboardDataType = MovePage Action "UID option" | CallbackStr string

datatype error = ZeroDivisionError | SourceFailure string

text \<open>Python's \<open>xs[start:stop]\<close>: a negative bound counts from the end, both are clamped.\<close>

definition py_slice :: "'a list \<Rightarrow> int \<Rightarrow> int \<Rightarrow> 'a list" where
  "py_slice xs start stop =
     (let n = int (length xs);
          lo = (if start < 0 then max (start + n) 0 else min start n);
          hi = (if stop < 0 then max (stop + n) 0 else min stop n)
      in take (nat (hi - lo)) (drop (nat lo) xs))"

text \<open>\<open>list.index\<close>: the first position of a value, \<open>None\<close> where Python raises ValueError.\<close>

fun index_of :: "'a list \<Rightarrow> 'a \<Rightarrow> nat option" where
  "index_of [] y = None"
| "index_of (x # xs) y =
     (if x = y then Some 0 else (case index_of xs y of None \<Rightarrow> None | Some i \<Rightarrow> Some (Suc i)))"

text \<open>The decimal text of an integer, as an f-string prints it.\<close>

definition digit_char :: "nat \<Rightarrow> char" where
  "digit_char d = ''0123456789'' ! d"

function str_nat :: "nat \<Rightarrow> string" where
  "str_nat n = (if n < 10 then [digit_char n] else str_nat (n div 10) @ [digit_char (n mod 10)])"
  by pat_completeness auto
termination
  by (relation "measure id") auto

declare str_nat.simps [simp del]

definition str_int :: "int \<Rightarrow> string" where
  "str_int i = (if i < 0 then CHR ''-'' # str_nat (nat (- i)) else str_nat (nat i))"

section \<open>Quantity entry of the product sub-flow (handlers/catalog.py)\<close>

record Product =
  product_name :: string
  stock :: int

text \<open>
  The FSM data of a user, restricted to the key \<open>product_processing\<close>, whose value is a
  dictionary with the keys \<open>product_id\<close> and \<open>quantity\<close>.
\<close>

record FSMData =
  product_processing :: "(string \<times> int) list option"

datatype Reply =
    InvalidFormat
  | StateError
  | ProductNotFound
  | OutOfRange int
  | ConfirmPrompt int int

text \<open>
  \<open>set_quantity\<close>: \<open>parsed\<close> is the result of \<open>int(message.text)\<close>, \<open>None\<close> where it raises
  ValueError; \<open>db\<close> is \<open>get_product\<close>, \<open>None\<close> where it raises ObjectDoesNotExist.
  The reply sent and the FSM data after the handler are returned.
\<close>

definition set_quantity :: "(int \<rightharpoonup> Product) \<Rightarrow> int option \<Rightarrow> FSMData \<Rightarrow> Reply \<times> FSMData" where
  "set_quantity db parsed data =
     (case parsed of
        None \<Rightarrow> (InvalidFormat, data)
      | Some quantity \<Rightarrow>
          (case product_processing data of
             None \<Rightarrow> (StateError, data)
           | Some product_processing_data \<Rightarrow>
               (if product_processing_data = [] then (StateError, data)
                else
                  (case map_of product_processing_data ''product_id'' of
                     None \<Rightarrow> (StateError, data)
                   | Some product_id \<Rightarrow>
                       (case db product_id of
                          None \<Rightarrow> (ProductNotFound, data)
                        | Some product \<Rightarrow>
                            (let product_in_stock = stock product in
                             if \<not> (0 < quantity \<and> quantity \<le> product_in_stock)
                             then (OutOfRange product_in_stock, data)
                             else (ConfirmPrompt product_id quantity,
                                   data\<lparr>product_processing :=
                                     Some (AList.update ''quantity'' quantity
                                             product_processing_data)\<rparr>)))))))"

section \<open>The content node tree (misc/paginator.py)\<close>

record PaginatorConfig =
  obj_count_per_page :: int
  loading_text :: string
  error_text :: string
  config_loader_func :: "Loader option"

record PageContent =
  content_text :: string
  label :: "string option"
  content_image :: "string option"
  content_kwargs :: kwargs
  is_leaf_node :: bool

text \<open>
  \<open>PageNode\<close> objects refer to each other: a node holds its children and each child its
  parent, and the paginator holds the node it shows.  A node object is therefore an
  address into a heap of nodes, the heap a list whose positions are the addresses; a new
  object goes to the end.  \<open>children\<close> is the dictionary from child UID to child object.
\<close>

record PageNode =
  uid :: UID
  content :: PageContent
  custom_kbd :: "(string \<times> KeyboardDataType) list"
  parent :: "addr option"
  children :: "(UID \<times> addr) list"
  config :: PaginatorConfig

type_synonym heap = "PageNode list"

text \<open>
  The arguments of the constructor call \<open>PageNode(uid=, content=, custom_kbd=, config=)\<close>,
  which is how every loader of the repository builds the nodes it returns: no children
  are passed, and \<open>parent\<close> is not a constructor argument.
\<close>

record NewNode =
  new_uid :: UID
  new_content :: PageContent
  new_custom_kbd :: "(string \<times> KeyboardDataType) list"
  new_config :: PaginatorConfig

definition PageNode_init :: "NewNode \<Rightarrow> PageNode" where
  "PageNode_init n =
     \<lparr>uid = new_uid n, content = new_content n, custom_kbd = new_custom_kbd n,
      parent = None, children = [], config = new_config n\<rparr>"

definition default_config :: PaginatorConfig where
  "default_config =
     \<lparr>obj_count_per_page = 5, loading_text = ''Loading...'', error_text = ''Error'',
      config_loader_func = None\<rparr>"

text \<open>The objects a loader has built, placed in the heap; their addresses in order.\<close>

definition alloc_nodes :: "heap \<Rightarrow> NewNode list \<Rightarrow> heap \<times> addr list" where
  "alloc_nodes h ns = (h @ map PageNode_init ns, [length h ..< length h + length ns])"

text \<open>\<open>PageNode.add_child\<close> on the node at \<open>p\<close>, with the child object at \<open>c\<close>.\<close>

definition add_child :: "heap \<Rightarrow> addr \<Rightarrow> addr \<Rightarrow> heap" where
  "add_child h p c =
     (let h1 = h[p := (h ! p)\<lparr>children := AList.update (uid (h ! c)) c (children (h ! p))\<rparr>]
      in h1[c := (h1 ! c)\<lparr>parent := Some p\<rparr>])"

definition add_children :: "heap \<Rightarrow> addr \<Rightarrow> addr list \<Rightarrow> heap" where
  "add_children h p cs = fold (\<lambda>c h'. add_child h' p c) cs h"

section \<open>The keyboard builder\<close>

text \<open>
  A keyboard is a dictionary from button label to callback data.  The label of a child
  button is the child's \<open>content.label\<close>, which is optional, so the keys are optional
  strings.
\<close>

type_synonym keyboard = "(string option \<times> KeyboardDataType) list"

definition PREV_LABEL :: string where
  "PREV_LABEL = [CHR 0xE2, CHR 0xAC, CHR 0x85, CHR 0xEF, CHR 0xB8, CHR 0x8F]"

definition NEXT_LABEL :: string where
  "NEXT_LABEL = [CHR 0xE2, CHR 0x9E, CHR 0xA1, CHR 0xEF, CHR 0xB8, CHR 0x8F]"

definition BACK_LABEL :: string where
  "BACK_LABEL =
     [CHR 0xD0, CHR 0x9D, CHR 0xD0, CHR 0xB0, CHR 0xD0, CHR 0xB7, CHR 0xD0, CHR 0xB0,
      CHR 0xD0, CHR 0xB4]"

text \<open>
  The loop over \<open>child_keys[cursor:cursor+obj_count_per_page]\<close>: one assignment
  \<open>keyboard[label of the child] = MovePage(action="down", uid=uid')\<close> per child of the
  window.  The window is taken from the dictionary's items, each UID with the object
  \<open>page.children[uid']\<close> it is bound to.
\<close>

definition child_buttons :: "heap \<Rightarrow> (UID \<times> addr) list \<Rightarrow> keyboard \<Rightarrow> keyboard" where
  "child_buttons h window keyboard =
     fold (\<lambda>(uid', a) kb. AList.update (label (content (h ! a))) (MovePage ActDown (Some uid')) kb)
       window keyboard"

text \<open>The items of \<open>child_keys[cursor:cursor+page.config.obj_count_per_page]\<close>, taken under \<open>if page.children\<close>.\<close>

definition child_window :: "PageNode \<Rightarrow> int \<Rightarrow> (UID \<times> addr) list" where
  "child_window page' cur =
     (if children page' \<noteq> []
      then py_slice (children page') cur (cur + obj_count_per_page (config page'))
      else [])"

definition child_sizes :: "int \<Rightarrow> int list" where
  "child_sizes num_children_on_page =
     (if num_children_on_page > 0
      then replicate (nat (num_children_on_page div 2)) 2
           @ (if num_children_on_page mod 2 = 1 then [1] else [])
      else [])"

definition create_navigation ::
  "heap \<Rightarrow> addr \<Rightarrow> int \<Rightarrow> bool \<Rightarrow> error + (keyboard \<times> int list)" where
  "create_navigation h pa cursor has_more =
     (let page = h ! pa;
          window = child_window page cursor;
          keyboard0 = child_buttons h window [];
          sizes0 = child_sizes (int (length window));
          keyboard1 = (if cursor > 0
                       then AList.update (Some PREV_LABEL) (MovePage ActPrev None) keyboard0
                       else keyboard0);
          row1 = (if cursor > 0 then 1 else 0 :: int);
          total_children = int (length (children page));
          items_per_page = obj_count_per_page (config page)
      in if total_children > items_per_page \<and> items_per_page = 0 then Inl ZeroDivisionError
         else
           (let keyboard2 = (if total_children > items_per_page
                             then AList.update (Some (str_int (cursor div items_per_page + 1)))
                                    (MovePage ActCurrent None) keyboard1
                             else keyboard1);
                row2 = (if total_children > items_per_page then row1 + 1 else row1);
                keyboard3 = (if has_more
                             then AList.update (Some NEXT_LABEL) (MovePage ActNext None) keyboard2
                             else keyboard2);
                control_row_size = (if has_more then row2 + 1 else row2);
                sizes1 = sizes0 @ (if control_row_size > 0 then [control_row_size] else []);
                keyboard4 = (if parent page \<noteq> None
                             then AList.update (Some BACK_LABEL) (MovePage ActUp None) keyboard3
                             else keyboard3);
                sizes2 = sizes1 @ (if parent page \<noteq> None then [1] else [])
            in Inr (keyboard4, filter (\<lambda>s. s > 0) sizes2)))"

text \<open>\<open>{**nav_keyboard, **custom}\<close>: the entries of \<open>custom\<close> assigned in order.\<close>

definition merge_kbd :: "keyboard \<Rightarrow> (string \<times> KeyboardDataType) list \<Rightarrow> keyboard" where
  "merge_kbd keyboard custom = fold (\<lambda>(k, v) kb. AList.update (Some k) v kb) custom keyboard"

text \<open>
  The number of control buttons \<open>create_navigation\<close> writes (its \<open>control_row_size\<close> and the
  button up), and the labels it may write them under.
\<close>

definition control_count :: "heap \<Rightarrow> addr \<Rightarrow> int \<Rightarrow> bool \<Rightarrow> nat" where
  "control_count h pa cur has_more =
     (if cur > 0 then 1 else 0)
     + (if int (length (children (h ! pa))) > obj_count_per_page (config (h ! pa)) then 1 else 0)
     + (if has_more then 1 else 0)
     + (if parent (h ! pa) \<noteq> None then 1 else 0)"

definition control_labels :: "heap \<Rightarrow> addr \<Rightarrow> int \<Rightarrow> string option set" where
  "control_labels h pa cur =
     {Some PREV_LABEL, Some NEXT_LABEL, Some BACK_LABEL,
      Some (str_int (cur div obj_count_per_page (config (h ! pa)) + 1))}"

section \<open>The paginator\<close>

record Paginator =
  page :: addr
  cursor :: int
  loader_func :: "Loader option"
  formatter :: "(string \<Rightarrow> kwargs \<Rightarrow> string) option"
  global_kbd :: "(string \<times> KeyboardDataType) list"

definition Paginator_init ::
  "addr \<Rightarrow> Loader option \<Rightarrow> (string \<Rightarrow> kwargs \<Rightarrow> string) option
     \<Rightarrow> (string \<times> KeyboardDataType) list option \<Rightarrow> Paginator" where
  "Paginator_init page' loader formatter' kbd =
     \<lparr>page = page', cursor = 0, loader_func = loader, formatter = formatter',
      global_kbd = (case kbd of None \<Rightarrow> [] | Some g \<Rightarrow> g)\<rparr>"

text \<open>
  A loader function is named; what a call of it returns is given by the environment of
  the turn, since the database behind it is outside the program: \<open>Inl msg\<close> when the call
  raises, otherwise the optional sequence of new nodes and the \<open>has_more\<close> flag.  Every
  call made is recorded with its arguments \<open>(uid, limit, cursor, kwargs)\<close>.
\<close>

type_synonym LoaderResult = "string + (NewNode list option \<times> bool)"
type_synonym env = "Loader \<Rightarrow> UID \<Rightarrow> int \<Rightarrow> int \<Rightarrow> kwargs \<Rightarrow> LoaderResult"
type_synonym call = "Loader \<times> UID \<times> int \<times> int \<times> kwargs"

record Rendered =
  r_text :: string
  r_image :: "string option"
  r_buttons :: keyboard
  r_sizes :: "int list"

text \<open>
  \<open>func if func is not None else self.loader_func if self.loader_func
     else target_page.config.loader_func\<close>
\<close>

definition choose_loader :: "Loader option \<Rightarrow> Loader option \<Rightarrow> Loader option \<Rightarrow> Loader option" where
  "choose_loader func self_loader_func page_loader_func =
     (if func \<noteq> None then func
      else if self_loader_func \<noteq> None then self_loader_func
      else page_loader_func)"

text \<open>The nested \<open>_load_data\<close>.\<close>

definition load_data ::
  "env \<Rightarrow> heap \<Rightarrow> addr \<Rightarrow> Loader option \<Rightarrow> kwargs \<Rightarrow> heap \<times> call list \<times> (error + bool)" where
  "load_data e h target_page func kw =
     (case func of
        None \<Rightarrow> (h, [], Inr False)
      | Some f \<Rightarrow>
          (let node = h ! target_page;
               limit = obj_count_per_page (config node);
               offset = int (length (children node));
               c = (f, uid node, limit, offset, kw)
           in case e f (uid node) limit offset kw of
                Inl msg \<Rightarrow> (h, [c], Inl (SourceFailure msg))
              | Inr (data, has_more_data) \<Rightarrow>
                  (case data of
                     None \<Rightarrow> (h, [c], Inr has_more_data)
                   | Some ns \<Rightarrow>
                       (if ns = [] then (h, [c], Inr has_more_data)
                        else (let (h1, cs) = alloc_nodes h ns
                              in (add_children h1 target_page cs, [c], Inr has_more_data))))))"

text \<open>The decision whether to load, lines 374 to 393 of \<open>_get_page_content\<close>.\<close>

definition load_step ::
  "env \<Rightarrow> heap \<Rightarrow> addr \<Rightarrow> int \<Rightarrow> Loader option \<Rightarrow> kwargs \<Rightarrow> heap \<times> call list \<times> (error + bool)" where
  "load_step e h target_page cur func kw =
     (let node = h ! target_page;
          n = int (length (children node));
          ps = obj_count_per_page (config node)
      in if \<not> is_leaf_node (content node) then
           (if n > cur + ps then (h, [], Inr True)
            else if cur + ps \<ge> n then
              (if func \<noteq> None then load_data e h target_page func kw else (h, [], Inr False))
            else (h, [], Inr False))
         else (h, [], Inr False))"

definition get_page_content ::
  "env \<Rightarrow> heap \<Rightarrow> Paginator \<Rightarrow> Loader option \<Rightarrow> addr option \<Rightarrow> kwargs
     \<Rightarrow> heap \<times> call list \<times> (error + Rendered)" where
  "get_page_content e h pg func page_arg kw =
     (let target_page = (case page_arg of Some a \<Rightarrow> a | None \<Rightarrow> page pg);
          func' = choose_loader func (loader_func pg)
                    (config_loader_func (config (h ! target_page)));
          (h', calls, loaded) = load_step e h target_page (cursor pg) func' kw
      in case loaded of
           Inl err \<Rightarrow> (h', calls, Inl err)
         | Inr has_more_on_current_page \<Rightarrow>
             (case create_navigation h' target_page (cursor pg) has_more_on_current_page of
                Inl err \<Rightarrow> (h', calls, Inl err)
              | Inr (nav_keyboard, nav_sizes) \<Rightarrow>
                  (let node = h' ! target_page;
                       buttons = merge_kbd (merge_kbd nav_keyboard (custom_kbd node))
                                   (global_kbd pg);
                       custom_kbd_size = (if custom_kbd node \<noteq> [] then 1 else 0 :: int);
                       global_kbd_size = (if global_kbd pg \<noteq> [] then 1 else 0 :: int);
                       final_sizes = nav_sizes
                         @ (if custom_kbd_size > 0 then [custom_kbd_size] else [])
                         @ (if global_kbd_size > 0 then [global_kbd_size] else []);
                       text_to_format = content_text (content node);
                       formatted = (case formatter pg of
                                      Some f \<Rightarrow> f text_to_format (content_kwargs (content node))
                                    | None \<Rightarrow> text_to_format)
                   in (h', calls,
                       Inr \<lparr>r_text = formatted, r_image = content_image (content node),
                            r_buttons = buttons,
                            r_sizes = filter (\<lambda>s. s > 0) final_sizes\<rparr>))))"

text \<open>
  \<open>show_page\<close> hands the result of \<open>_get_page_content\<close> to \<open>send_or_edit_message\<close>, which
  is outside the engine: the rendered page is the result.
\<close>

definition show_page ::
  "env \<Rightarrow> heap \<Rightarrow> Paginator \<Rightarrow> Loader option \<Rightarrow> addr option \<Rightarrow> kwargs
     \<Rightarrow> heap \<times> call list \<times> (error + Rendered)" where
  "show_page e h pg func page_arg kw =
     (let target_page = (case page_arg of Some a \<Rightarrow> a | None \<Rightarrow> page pg)
      in get_page_content e h pg func (Some target_page) kw)"

text \<open>
  The first part of \<open>handle_navigation\<close>: the change of \<open>self.page\<close> and \<open>self.cursor\<close>.
  The floor division of \<open>up\<close> raises on a page size of zero, before anything is assigned.
\<close>

definition navigate :: "heap \<Rightarrow> Paginator \<Rightarrow> Action \<Rightarrow> UID option \<Rightarrow> error + Paginator" where
  "navigate h pg action uid' =
     (let node = h ! page pg; ps = obj_count_per_page (config node) in
      case action of
        ActNext \<Rightarrow>
          (if cursor pg + ps < int (length (children node))
              \<or> (config_loader_func (config node) \<noteq> None \<or> loader_func pg \<noteq> None)
           then Inr (pg\<lparr>cursor := cursor pg + ps\<rparr>)
           else Inr pg)
      | ActPrev \<Rightarrow>
          (if cursor pg > 0 then Inr (pg\<lparr>cursor := max 0 (cursor pg - ps)\<rparr>) else Inr pg)
      | ActDown \<Rightarrow>
          (case uid' of
             Some u \<Rightarrow>
               (case map_of (children node) u of
                  Some c \<Rightarrow> Inr (pg\<lparr>page := c, cursor := 0\<rparr>)
                | None \<Rightarrow> Inr pg)
           | None \<Rightarrow> Inr pg)
      | ActUp \<Rightarrow>
          (case parent node of
             Some pa \<Rightarrow>
               (let parent_children_uids = map fst (children (h ! pa));
                    pps = obj_count_per_page (config (h ! pa))
                in case index_of parent_children_uids (uid node) of
                     Some idx \<Rightarrow>
                       (if pps = 0 then Inl ZeroDivisionError
                        else Inr (pg\<lparr>cursor := (int idx div pps) * pps, page := pa\<rparr>))
                   | None \<Rightarrow> Inr (pg\<lparr>cursor := 0, page := pa\<rparr>))
           | None \<Rightarrow> Inr pg)
      | ActCurrent \<Rightarrow> Inr pg)"

text \<open>
  \<open>handle_navigation\<close>: the paginator, the heap, the loader calls and the outcome of the
  turn.  An exception leaves the objects as they were when it was raised.
\<close>

definition handle_navigation ::
  "env \<Rightarrow> heap \<Rightarrow> Paginator \<Rightarrow> Action \<Rightarrow> UID option \<Rightarrow> kwargs
     \<Rightarrow> Paginator \<times> heap \<times> call list \<times> (error + Rendered)" where
  "handle_navigation e h pg action uid' kw =
     (case navigate h pg action uid' of
        Inl err \<Rightarrow> (pg, h, [], Inl err)
      | Inr pg' \<Rightarrow> (let (h', calls, out) = show_page e h pg' None None kw
                   in (pg', h', calls, out)))"

section \<open>The FAQ scene (handlers/faq.py)\<close>



section \<open>Example states\<close>

text \<open>
  The FAQ scene as \<open>FAQ.on_enter\<close> builds it: a root node with the default
  configuration, an engine-level loader and the global button back to the main menu.
\<close>

definition leaf_content :: "string \<Rightarrow> PageContent" where
  "leaf_content l =
     \<lparr>content_text = ''answer'', label = Some l, content_image = None,
      content_kwargs = [], is_leaf_node = True\<rparr>"

definition new_leaf :: "UID \<Rightarrow> string \<Rightarrow> NewNode" where
  "new_leaf u l =
     \<lparr>new_uid = u, new_content = leaf_content l, new_custom_kbd = [],
      new_config = default_config\<rparr>"

definition faq_root :: PageNode where
  "faq_root = PageNode_init
     \<lparr>new_uid = ''faq_root'',
      new_content = \<lparr>content_text = ''You are in FAQ:'', label = Some ''FAQ Root'',
                      content_image = None, content_kwargs = [], is_leaf_node = False\<rparr>,
      new_custom_kbd = [], new_config = default_config\<rparr>"

definition faq_pg :: Paginator where
  "faq_pg = Paginator_init 0 (Some ''faq_loader_function'') None
              (Some [(''To Main Menu'', CallbackStr ''goto_main_menu'')])"

text \<open>Three entries and no more; two of them carry the same label.\<close>

definition env_three :: env where
  "env_three f u limit offset kw =
     Inr (Some [new_leaf ''faq_1'' ''Q1'', new_leaf ''faq_2'' ''Q2'', new_leaf ''faq_3'' ''Q1''],
          False)"

definition env_none :: env where
  "env_none f u limit offset kw = Inr (None, False)"

definition env_raise :: env where
  "env_raise f u limit offset kw = Inl ''db down''"

text \<open>A root whose own configuration names a loader, under an engine with another one.\<close>

definition shop_root :: PageNode where
  "shop_root = PageNode_init
     \<lparr>new_uid = ''catalog_root'',
      new_content = \<lparr>content_text = ''Welcome'', label = Some ''Catalog Root'',
                      content_image = None, content_kwargs = [], is_leaf_node = False\<rparr>,
      new_custom_kbd = [],
      new_config = default_config\<lparr>config_loader_func := Some ''node_loader''\<rparr>\<rparr>"

definition shop_pg :: Paginator where
  "shop_pg = Paginator_init 0 (Some ''engine_loader'') None None"

definition attached_leaf :: "UID \<Rightarrow> string \<Rightarrow> addr \<Rightarrow> PageNode" where
  "attached_leaf u l p = (PageNode_init (new_leaf u l))\<lparr>parent := Some p\<rparr>"

text \<open>The FAQ tree after the first render with \<open>env_three\<close>.\<close>

definition faq_loaded :: heap where
  "faq_loaded =
     [faq_root\<lparr>children := [(''faq_1'', 1), (''faq_2'', 2), (''faq_3'', 3)]\<rparr>,
      attached_leaf ''faq_1'' ''Q1'' 0, attached_leaf ''faq_2'' ''Q2'' 0,
      attached_leaf ''faq_3'' ''Q1'' 0]"

text \<open>
  The engine after \<open>down\<close> into the first entry of the loaded FAQ tree; and the same
  position in an engine whose global action is labelled like the button up.
\<close>

definition faq_answer_pg :: Paginator where
  "faq_answer_pg = faq_pg\<lparr>page := 1\<rparr>"

definition back_menu_pg :: Paginator where
  "back_menu_pg =
     (Paginator_init 0 (Some ''faq_loader_function'') None
        (Some [(BACK_LABEL, CallbackStr ''goto_main_menu'')]))\<lparr>page := 1\<rparr>"

section \<open>Turns of a scene\<close>










section \<open>Quantity validation\<close>

text \<open>
  C8. With a product being processed whose stock is \<open>s\<close>, an entered integer \<open>q\<close> is
  accepted exactly when \<open>1 \<le> q \<le> s\<close>: then the quantity is stored under the key
  \<open>quantity\<close> and the confirmation prompt is sent.  Every other integer, so \<open>0\<close> and
  every value above the stock, gets the corrective message and leaves the FSM data as
  they were.
\<close>

theorem set_quantity_accepts_iff_in_stock_range:
  assumes "product_processing data = Some ppd"
    and "map_of ppd ''product_id'' = Some pid"
    and "db pid = Some p"
    and "stock p = s"
  shows "(1 \<le> q \<and> q \<le> s \<longrightarrow>
            set_quantity db (Some q) data =
              (ConfirmPrompt pid q,
               data\<lparr>product_processing := Some (AList.update ''quantity'' q ppd)\<rparr>)
            \<and> map_of (AList.update ''quantity'' q ppd) ''quantity'' = Some q)
       \<and> (\<not> (1 \<le> q \<and> q \<le> s) \<longrightarrow> set_quantity db (Some q) data = (OutOfRange s, data))
       \<and> (fst (set_quantity db (Some q) data) = ConfirmPrompt pid q \<longleftrightarrow> 1 \<le> q \<and> q \<le> s)"
proof -
  have ne: "ppd \<noteq> []" using assms(2) by auto
  show ?thesis
    using assms ne by (auto simp: set_quantity_def update_conv')
qed

theorem set_quantity_accepts_iff_in_stock_range_witness:
  "set_quantity [7 \<mapsto> \<lparr>product_name = ''Mug'', stock = 3\<rparr>] (Some 3)
       \<lparr>product_processing = Some [(''product_id'', 7)]\<rparr>
     = (ConfirmPrompt 7 3,
        \<lparr>product_processing = Some [(''product_id'', 7), (''quantity'', 3)]\<rparr>)
   \<and> set_quantity [7 \<mapsto> \<lparr>product_name = ''Mug'', stock = 3\<rparr>] (Some 0)
       \<lparr>product_processing = Some [(''product_id'', 7)]\<rparr>
     = (OutOfRange 3, \<lparr>product_processing = Some [(''product_id'', 7)]\<rparr>)
   \<and> set_quantity [7 \<mapsto> \<lparr>product_name = ''Mug'', stock = 3\<rparr>] (Some 4)
       \<lparr>product_processing = Some [(''product_id'', 7)]\<rparr>
     = (OutOfRange 3, \<lparr>product_processing = Some [(''product_id'', 7)]\<rparr>)"
  using set_quantity_accepts_iff_in_stock_range
          [of "\<lparr>product_processing = Some [(''product_id'', 7)]\<rparr>" "[(''product_id'', 7)]" 7
              "[7 \<mapsto> \<lparr>product_name = ''Mug'', stock = 3\<rparr>]"
              "\<lparr>product_name = ''Mug'', stock = 3\<rparr>" 3 3]
        set_quantity_accepts_iff_in_stock_range
          [of "\<lparr>product_processing = Some [(''product_id'', 7)]\<rparr>" "[(''product_id'', 7)]" 7
              "[7 \<mapsto> \<lparr>product_name = ''Mug'', stock = 3\<rparr>]"
              "\<lparr>product_name = ''Mug'', stock = 3\<rparr>" 3 0]
        set_quantity_accepts_iff_in_stock_range
          [of "\<lparr>product_processing = Some [(''product_id'', 7)]\<rparr>" "[(''product_id'', 7)]" 7
              "[7 \<mapsto> \<lparr>product_name = ''Mug'', stock = 3\<rparr>]"
              "\<lparr>product_name = ''Mug'', stock = 3\<rparr>" 3 4]
  by simp

section \<open>Loading and rendering\<close>

lemma load_step_leaf:
  "is_leaf_node (content (h ! tp)) \<Longrightarrow> load_step e h tp cur f kw = (h, [], Inr False)"
  by (simp add: load_step_def)



lemma get_page_content_heap_calls:
  "fst (get_page_content e h pg func page_arg kw) =
     fst (load_step e h (case page_arg of Some a \<Rightarrow> a | None \<Rightarrow> page pg) (cursor pg)
        (choose_loader func (loader_func pg)
           (config_loader_func (config (h ! (case page_arg of Some a \<Rightarrow> a | None \<Rightarrow> page pg))))) kw)
   \<and> fst (snd (get_page_content e h pg func page_arg kw)) =
     fst (snd (load_step e h (case page_arg of Some a \<Rightarrow> a | None \<Rightarrow> page pg) (cursor pg)
        (choose_loader func (loader_func pg)
           (config_loader_func (config (h ! (case page_arg of Some a \<Rightarrow> a | None \<Rightarrow> page pg))))) kw))"
  by (simp add: get_page_content_def Let_def split: sum.splits prod.splits)





lemma load_step_SourceFailure:
  assumes "load_step e h tp cur src kw = (h', calls, Inl (SourceFailure m))"
  shows "h' = h \<and> src \<noteq> None"
  using assms
  by (auto simp: load_step_def load_data_def Let_def split: if_splits option.splits sum.splits prod.splits)

lemma create_navigation_no_SourceFailure:
  "create_navigation h pa cur hm \<noteq> Inl (SourceFailure m)"
  by (auto simp: create_navigation_def Let_def)

lemma get_page_content_SourceFailure:
  assumes "get_page_content e h pg func page_arg kw = (h', calls, Inl (SourceFailure m))"
  shows "h' = h \<and> choose_loader func (loader_func pg)
           (config_loader_func (config (h ! (case page_arg of Some a \<Rightarrow> a | None \<Rightarrow> page pg)))) \<noteq> None"
  using assms load_step_SourceFailure create_navigation_no_SourceFailure
  by (simp add: get_page_content_def Let_def split: prod.splits sum.splits)

lemma navigate_next:
  "navigate h pg ActNext u =
     Inr (if cursor pg + obj_count_per_page (config (h ! page pg)) < int (length (children (h ! page pg)))
             \<or> config_loader_func (config (h ! page pg)) \<noteq> None \<or> loader_func pg \<noteq> None
          then pg\<lparr>cursor := cursor pg + obj_count_per_page (config (h ! page pg))\<rparr> else pg)"
  by (simp add: navigate_def Let_def)


section \<open>The example states, evaluated\<close>

lemma upt_1_4: "[Suc 0..<4] = [1, 2, 3]"
  by (simp add: upt_rec)

lemma faq_load_heap:
  "add_children (fst (alloc_nodes [faq_root]
      [new_leaf ''faq_1'' ''Q1'', new_leaf ''faq_2'' ''Q2'', new_leaf ''faq_3'' ''Q1'']))
     0 (snd (alloc_nodes [faq_root]
      [new_leaf ''faq_1'' ''Q1'', new_leaf ''faq_2'' ''Q2'', new_leaf ''faq_3'' ''Q1'']))
   = faq_loaded"
  by (simp add: alloc_nodes_def add_children_def add_child_def upt_1_4 faq_loaded_def
        attached_leaf_def new_leaf_def PageNode_init_def faq_root_def)

lemma faq_first_load:
  "load_step env_three [faq_root] 0 0 (Some ''faq_loader_function'') []
     = (faq_loaded, [(''faq_loader_function'', ''faq_root'', 5, 0, [])], Inr False)"
proof -
  have "load_step env_three [faq_root] 0 0 (Some ''faq_loader_function'') []
     = (add_children (fst (alloc_nodes [faq_root]
      [new_leaf ''faq_1'' ''Q1'', new_leaf ''faq_2'' ''Q2'', new_leaf ''faq_3'' ''Q1'']))
     0 (snd (alloc_nodes [faq_root]
      [new_leaf ''faq_1'' ''Q1'', new_leaf ''faq_2'' ''Q2'', new_leaf ''faq_3'' ''Q1''])),
      [(''faq_loader_function'', ''faq_root'', 5, 0, [])], Inr False)"
    by (simp add: load_step_def load_data_def env_three_def faq_root_def PageNode_init_def
          default_config_def split_beta Let_def)
  then show ?thesis by (simp only: faq_load_heap)
qed

lemma faq_loaded_nav:
  "create_navigation faq_loaded 0 0 False
     = Inr ([(Some ''Q1'', MovePage ActDown (Some ''faq_3'')),
             (Some ''Q2'', MovePage ActDown (Some ''faq_2''))], [2, 1])"
  by (simp add: create_navigation_def faq_loaded_def attached_leaf_def faq_root_def
        PageNode_init_def new_leaf_def leaf_content_def default_config_def py_slice_def
        child_window_def child_buttons_def child_sizes_def Let_def)

lemma faq_pg_fields:
  "page faq_pg = 0" "cursor faq_pg = 0" "loader_func faq_pg = Some ''faq_loader_function''"
  "formatter faq_pg = None"
  "global_kbd faq_pg = [(''To Main Menu'', CallbackStr ''goto_main_menu'')]"
  by (simp_all add: faq_pg_def Paginator_init_def)

lemma faq_root_fields:
  "uid faq_root = ''faq_root''" "children faq_root = []" "parent faq_root = None"
  "custom_kbd faq_root = []" "\<not> is_leaf_node (content faq_root)"
  "obj_count_per_page (config faq_root) = 5" "config_loader_func (config faq_root) = None"
  "content_text (content faq_root) = ''You are in FAQ:''"
  "content_image (content faq_root) = None"
  by (simp_all add: faq_root_def PageNode_init_def default_config_def)

lemma faq_loaded_root:
  "faq_loaded ! 0 = faq_root\<lparr>children := [(''faq_1'', 1), (''faq_2'', 2), (''faq_3'', 3)]\<rparr>"
  "length faq_loaded = 4"
  by (simp_all add: faq_loaded_def)

lemma faq_first_render:
  "get_page_content env_three [faq_root] faq_pg None None []
     = (faq_loaded, [(''faq_loader_function'', ''faq_root'', 5, 0, [])],
        Inr \<lparr>r_text = ''You are in FAQ:'', r_image = None,
             r_buttons = [(Some ''Q1'', MovePage ActDown (Some ''faq_3'')),
                          (Some ''Q2'', MovePage ActDown (Some ''faq_2'')),
                          (Some ''To Main Menu'', CallbackStr ''goto_main_menu'')],
             r_sizes = [2, 1, 1]\<rparr>)"
  by (simp add: get_page_content_def choose_loader_def faq_pg_fields faq_root_fields
        faq_first_load faq_loaded_nav faq_loaded_root merge_kbd_def)

lemma faq_first_show:
  "show_page env_three [faq_root] faq_pg None None []
     = (faq_loaded, [(''faq_loader_function'', ''faq_root'', 5, 0, [])],
        Inr \<lparr>r_text = ''You are in FAQ:'', r_image = None,
             r_buttons = [(Some ''Q1'', MovePage ActDown (Some ''faq_3'')),
                          (Some ''Q2'', MovePage ActDown (Some ''faq_2'')),
                          (Some ''To Main Menu'', CallbackStr ''goto_main_menu'')],
             r_sizes = [2, 1, 1]\<rparr>)"
proof -
  have "get_page_content env_three [faq_root] faq_pg None (Some 0) []
          = get_page_content env_three [faq_root] faq_pg None None []"
    by (simp add: get_page_content_def faq_pg_fields)
  then show ?thesis by (simp add: show_page_def faq_pg_fields faq_first_render)
qed

text \<open>
  C9. Rendering a node whose \<open>is_leaf_node\<close> flag is set calls no loader and leaves the
  tree as it is, whatever the cursor, the known children, the loader passed to the call,
  the engine's loader and the node's own loader are, and whatever the loaders would
  return.
\<close>

theorem leaf_render_calls_no_loader:
  assumes "is_leaf_node (content (h ! (case page_arg of Some a \<Rightarrow> a | None \<Rightarrow> page pg)))"
  shows "fst (snd (get_page_content e h pg func page_arg kw)) = []
       \<and> fst (get_page_content e h pg func page_arg kw) = h
       \<and> fst (snd (show_page e h pg func page_arg kw)) = []
       \<and> fst (show_page e h pg func page_arg kw) = h"
  using assms
  by (auto simp: show_page_def get_page_content_def load_step_leaf Let_def
           split: sum.splits prod.splits option.splits)

theorem leaf_render_calls_no_loader_witness:
  "is_leaf_node (content ([faq_root, PageNode_init (new_leaf ''faq_1'' ''Q1'')] ! 1))
   \<and> fst (snd (get_page_content env_raise [faq_root, PageNode_init (new_leaf ''faq_1'' ''Q1'')]
                 faq_pg (Some ''other_loader'') (Some 1) [])) = []
   \<and> fst (snd (show_page env_raise [faq_root, PageNode_init (new_leaf ''faq_1'' ''Q1'')]
                 faq_pg (Some ''other_loader'') (Some 1) [])) = []"
  using leaf_render_calls_no_loader
          [where h = "[faq_root, PageNode_init (new_leaf ''faq_1'' ''Q1'')]"
             and page_arg = "Some 1" and pg = faq_pg and e = env_raise
             and func = "Some ''other_loader''" and kw = "[]"]
  by (simp add: PageNode_init_def new_leaf_def leaf_content_def)



text \<open>
  C3. A node whose own configuration names a loader, shown by an engine that has a
  loader of its own: the call goes to the engine's loader, not to the node's.
\<close>

theorem engine_loader_shadows_node_loader:
  "config_loader_func (config (([shop_root]) ! page shop_pg)) = Some ''node_loader''
   \<and> loader_func shop_pg = Some ''engine_loader''
   \<and> fst (snd (get_page_content env_none [shop_root] shop_pg None None []))
       = [(''engine_loader'', ''catalog_root'', 5, 0, [])]"
  by (simp add: get_page_content_heap_calls load_step_def load_data_def choose_loader_def
        shop_root_def shop_pg_def env_none_def PageNode_init_def Paginator_init_def default_config_def)

text \<open>
  C1, as claimed, at the FAQ root with a loader that raises: after the failed \<open>next\<close>
  the cursor is \<open>5\<close>, not the \<open>0\<close> it was before.
\<close>

theorem next_with_failing_source_keeps_advanced_cursor:
  "cursor faq_pg = 0
   \<and> handle_navigation env_raise [faq_root] faq_pg ActNext None []
       = (faq_pg\<lparr>cursor := 5\<rparr>, [faq_root],
          [(''faq_loader_function'', ''faq_root'', 5, 0, [])], Inl (SourceFailure ''db down''))"
  by (simp add: handle_navigation_def navigate_def show_page_def get_page_content_def load_step_def load_data_def
     choose_loader_def faq_root_def faq_pg_def env_raise_def PageNode_init_def Paginator_init_def default_config_def)

text \<open>
  C1, amended. When the loader raises during a \<open>next\<close> turn, the exception leaves
  \<open>handle_navigation\<close> with the tree untouched (no child attached anywhere) and the
  current node the same, and with the cursor already advanced by the page size: the
  transition is applied before the render and nothing takes it back.
\<close>

theorem failed_next_leaves_tree_but_not_cursor:
  assumes "handle_navigation e h pg ActNext u kw = (pg', h', calls, Inl (SourceFailure m))"
  shows "h' = h \<and> page pg' = page pg
       \<and> cursor pg' = cursor pg + obj_count_per_page (config (h ! page pg))
       \<and> pg' = pg\<lparr>cursor := cursor pg + obj_count_per_page (config (h ! page pg))\<rparr>"
proof -
  let ?pg1 = "if cursor pg + obj_count_per_page (config (h ! page pg)) < int (length (children (h ! page pg)))
             \<or> config_loader_func (config (h ! page pg)) \<noteq> None \<or> loader_func pg \<noteq> None
          then pg\<lparr>cursor := cursor pg + obj_count_per_page (config (h ! page pg))\<rparr> else pg"
  have pg': "pg' = ?pg1"
    and sp: "get_page_content e h ?pg1 None (Some (page ?pg1)) kw = (h', calls, Inl (SourceFailure m))"
    using assms by (auto simp: handle_navigation_def navigate_next show_page_def Let_def split: prod.splits)
  have pp: "page ?pg1 = page pg" "loader_func ?pg1 = loader_func pg" by auto
  from get_page_content_SourceFailure[OF sp]
  have "h' = h" and ld: "choose_loader None (loader_func pg) (config_loader_func (config (h ! page pg))) \<noteq> None"
    using pp by auto
  from ld have "config_loader_func (config (h ! page pg)) \<noteq> None \<or> loader_func pg \<noteq> None"
    by (auto simp: choose_loader_def split: if_splits)
  then have "?pg1 = pg\<lparr>cursor := cursor pg + obj_count_per_page (config (h ! page pg))\<rparr>" by auto
  with pg' \<open>h' = h\<close> show ?thesis by simp
qed

theorem failed_next_leaves_tree_but_not_cursor_witness:
  "handle_navigation env_raise [faq_root] faq_pg ActNext None []
     = (faq_pg\<lparr>cursor := 5\<rparr>, [faq_root],
        [(''faq_loader_function'', ''faq_root'', 5, 0, [])], Inl (SourceFailure ''db down''))
   \<and> cursor (faq_pg\<lparr>cursor := 5\<rparr>) = cursor faq_pg + obj_count_per_page (config ([faq_root] ! page faq_pg))"
proof -
  have r: "handle_navigation env_raise [faq_root] faq_pg ActNext None []
     = (faq_pg\<lparr>cursor := 5\<rparr>, [faq_root],
        [(''faq_loader_function'', ''faq_root'', 5, 0, [])], Inl (SourceFailure ''db down''))"
    by (simp add: handle_navigation_def navigate_def show_page_def get_page_content_def
          load_step_def load_data_def choose_loader_def faq_root_def faq_pg_def env_raise_def
          PageNode_init_def Paginator_init_def default_config_def)
  from failed_next_leaves_tree_but_not_cursor[OF r]
  have "cursor (faq_pg\<lparr>cursor := 5\<rparr>)
          = cursor faq_pg + obj_count_per_page (config ([faq_root] ! page faq_pg))"
    by blast
  with r show ?thesis by blast
qed

text \<open>
  C2, as claimed, in the FAQ scene: the first render loads three entries and the loader
  reports that there are no more, so every known child is inside the window \<open>[0, 5)\<close>;
  \<open>next\<close> all the same moves the cursor from \<open>0\<close> to \<open>5\<close>.
\<close>

theorem next_advances_past_last_known_page:
  "show_page env_three [faq_root] faq_pg None None []
     = (faq_loaded, [(''faq_loader_function'', ''faq_root'', 5, 0, [])],
        Inr \<lparr>r_text = ''You are in FAQ:'', r_image = None,
             r_buttons = [(Some ''Q1'', MovePage ActDown (Some ''faq_3'')),
                          (Some ''Q2'', MovePage ActDown (Some ''faq_2'')),
                          (Some ''To Main Menu'', CallbackStr ''goto_main_menu'')],
             r_sizes = [2, 1, 1]\<rparr>)
   \<and> map fst (children (faq_loaded ! page faq_pg)) = [''faq_1'', ''faq_2'', ''faq_3'']
   \<and> cursor faq_pg = 0
   \<and> cursor (fst (handle_navigation env_none faq_loaded faq_pg ActNext None [])) = 5"
  by (simp add: faq_first_show faq_loaded_root faq_pg_fields faq_root_fields
        handle_navigation_def navigate_next split_beta)

text \<open>
  C2, amended. \<open>next\<close> advances the cursor by the page size when children are known
  beyond the window or a loader is configured on the node or on the engine, whatever the
  last load reported; it leaves the cursor unchanged only when no child is known beyond
  the window and no loader is configured at all.
\<close>

theorem next_advances_iff_known_or_source:
  "fst (handle_navigation e h pg ActNext u kw) =
     (if cursor pg + obj_count_per_page (config (h ! page pg)) < int (length (children (h ! page pg)))
             \<or> config_loader_func (config (h ! page pg)) \<noteq> None \<or> loader_func pg \<noteq> None
          then pg\<lparr>cursor := cursor pg + obj_count_per_page (config (h ! page pg))\<rparr> else pg)"
  by (simp add: handle_navigation_def navigate_next Let_def split: prod.splits)

theorem next_advances_iff_known_or_source_witness:
  "fst (handle_navigation env_none [faq_root] faq_pg ActNext None []) = faq_pg\<lparr>cursor := 5\<rparr>
   \<and> fst (handle_navigation env_none [faq_root] (faq_pg\<lparr>loader_func := None\<rparr>) ActNext None [])
       = faq_pg\<lparr>loader_func := None\<rparr>"
  using next_advances_iff_known_or_source[of env_none "[faq_root]" faq_pg None "[]"]
        next_advances_iff_known_or_source
          [of env_none "[faq_root]" "faq_pg\<lparr>loader_func := None\<rparr>" None "[]"]
  by (simp add: faq_pg_fields faq_root_fields)

section \<open>The navigation keyboard\<close>

lemma digit_char_digit: "d < 10 \<Longrightarrow> digit_char d \<in> set ''0123456789''"
  unfolding digit_char_def by (rule nth_mem) simp

lemma str_nat_digits: "c \<in> set (str_nat n) \<Longrightarrow> c \<in> set ''0123456789''"
proof (induction n rule: str_nat.induct)
  case (1 n)
  show ?case
  proof (cases "n < 10")
    case True
    with "1.prems" have "c = digit_char n"
      by (subst (asm) str_nat.simps) simp
    then show ?thesis using digit_char_digit[OF True] by (simp only:)
  next
    case False
    with "1.prems" have "c \<in> set (str_nat (n div 10)) \<or> c = digit_char (n mod 10)"
      by (subst (asm) str_nat.simps) auto
    moreover have "digit_char (n mod 10) \<in> set ''0123456789''"
      by (rule digit_char_digit) simp
    ultimately show ?thesis
      using "1.IH"[OF False] by blast
  qed
qed

lemma str_int_chars: "c \<in> set (str_int i) \<Longrightarrow> c \<in> set ''-0123456789''"
proof -
  assume a: "c \<in> set (str_int i)"
  then have "c = CHR ''-'' \<or> c \<in> set (str_nat (nat (- i))) \<or> c \<in> set (str_nat (nat i))"
    by (auto simp: str_int_def split: if_splits)
  then have "c = CHR ''-'' \<or> c \<in> set ''0123456789''"
    using str_nat_digits by blast
  then show ?thesis by auto
qed


lemma str_int_not_control:
  "str_int i \<noteq> PREV_LABEL" "str_int i \<noteq> NEXT_LABEL" "str_int i \<noteq> BACK_LABEL"
proof -
  have a: "CHR 0xE2 \<notin> set (str_int i)" using str_int_chars[of "CHR 0xE2" i] by auto
  have b: "CHR 0xD0 \<notin> set (str_int i)" using str_int_chars[of "CHR 0xD0" i] by auto
  have pa: "CHR 0xE2 \<in> set PREV_LABEL" "CHR 0xE2 \<in> set NEXT_LABEL" "CHR 0xD0 \<in> set BACK_LABEL"
    by (simp_all add: PREV_LABEL_def NEXT_LABEL_def BACK_LABEL_def)
  show "str_int i \<noteq> PREV_LABEL" using a pa(1) by metis
  show "str_int i \<noteq> NEXT_LABEL" using a pa(2) by metis
  show "str_int i \<noteq> BACK_LABEL" using b pa(3) by metis
qed

lemma control_labels_distinct:
  "PREV_LABEL \<noteq> NEXT_LABEL" "PREV_LABEL \<noteq> BACK_LABEL" "NEXT_LABEL \<noteq> BACK_LABEL"
  by (simp_all add: PREV_LABEL_def NEXT_LABEL_def BACK_LABEL_def)

lemma child_buttons_Nil: "child_buttons h [] kb = kb"
  by (simp add: child_buttons_def)

lemma child_buttons_Cons:
  "child_buttons h ((u, a) # w) kb =
     child_buttons h w (AList.update (label (content (h ! a))) (MovePage ActDown (Some u)) kb)"
  by (simp add: child_buttons_def)

lemma child_buttons_distinct:
  "distinct (map fst kb) \<Longrightarrow> distinct (map fst (child_buttons h w kb))"
proof (induction w arbitrary: kb)
  case Nil
  then show ?case by (simp add: child_buttons_Nil)
next
  case (Cons x w)
  obtain u a where x: "x = (u, a)" by (cases x)
  show ?case unfolding x child_buttons_Cons
    by (rule Cons.IH) (simp add: distinct_update Cons.prems)
qed

lemma child_buttons_values:
  "map_of (child_buttons h w kb) l = Some v \<Longrightarrow>
     map_of kb l = Some v \<or> (\<exists>u. v = MovePage ActDown (Some u))"
proof (induction w arbitrary: kb)
  case Nil
  then show ?case by (simp add: child_buttons_Nil)
next
  case (Cons x w)
  obtain u a where x: "x = (u, a)" by (cases x)
  from Cons.prems have
    "map_of (child_buttons h w
       (AList.update (label (content (h ! a))) (MovePage ActDown (Some u)) kb)) l = Some v"
    by (simp add: x child_buttons_Cons)
  from Cons.IH[OF this] show ?case
    by (auto simp: update_conv' split: if_splits)
qed

lemma values_iff_map_of:
  assumes "distinct (map fst kb)"
  shows "(v \<in> snd ` set kb) = (\<exists>k. map_of kb k = Some v)"
proof
  assume "v \<in> snd ` set kb"
  then obtain k where "(k, v) \<in> set kb" by auto
  then have "map_of kb k = Some v" using assms by simp
  then show "\<exists>k. map_of kb k = Some v" ..
next
  assume "\<exists>k. map_of kb k = Some v"
  then obtain k where "map_of kb k = Some v" ..
  then have "(k, v) \<in> set kb" by (rule map_of_SomeD)
  then show "v \<in> snd ` set kb" by force
qed


lemma child_buttons_empty_values:
  "map_of (child_buttons h w []) l = Some v \<Longrightarrow> \<exists>u. v = MovePage ActDown (Some u)"
  using child_buttons_values[of h w "[]" l v] by simp

lemma create_navigation_map:
  assumes "create_navigation h pa cur hm = Inr (kb, sizes)"
  shows "distinct (map fst kb)"
    and "map_of kb l =
      (if parent (h ! pa) \<noteq> None \<and> l = Some BACK_LABEL then Some (MovePage ActUp None)
       else if hm \<and> l = Some NEXT_LABEL then Some (MovePage ActNext None)
       else if int (length (children (h ! pa))) > obj_count_per_page (config (h ! pa))
               \<and> l = Some (str_int (cur div obj_count_per_page (config (h ! pa)) + 1))
            then Some (MovePage ActCurrent None)
       else if cur > 0 \<and> l = Some PREV_LABEL then Some (MovePage ActPrev None)
       else map_of (child_buttons h (child_window (h ! pa) cur) []) l)"
proof -
  have d0: "distinct (map fst (child_buttons h (child_window (h ! pa) cur) []))"
    by (rule child_buttons_distinct) simp
  show "distinct (map fst kb)"
    using assms d0
    by (auto simp: create_navigation_def Let_def distinct_update split: if_splits)
  show "map_of kb l =
      (if parent (h ! pa) \<noteq> None \<and> l = Some BACK_LABEL then Some (MovePage ActUp None)
       else if hm \<and> l = Some NEXT_LABEL then Some (MovePage ActNext None)
       else if int (length (children (h ! pa))) > obj_count_per_page (config (h ! pa))
               \<and> l = Some (str_int (cur div obj_count_per_page (config (h ! pa)) + 1))
            then Some (MovePage ActCurrent None)
       else if cur > 0 \<and> l = Some PREV_LABEL then Some (MovePage ActPrev None)
       else map_of (child_buttons h (child_window (h ! pa) cur) []) l)"
    using assms
    by (auto simp: create_navigation_def Let_def update_conv' split: if_splits)
qed


lemma nav_controls:
  assumes nav: "create_navigation h pa cur hm = Inr (kb, sizes)"
  shows "map_of kb (Some PREV_LABEL) = Some (MovePage ActPrev None) \<longleftrightarrow> cur > 0"
    and "map_of kb (Some (str_int (cur div obj_count_per_page (config (h ! pa)) + 1)))
           = Some (MovePage ActCurrent None)
         \<longleftrightarrow> int (length (children (h ! pa))) > obj_count_per_page (config (h ! pa))"
    and "map_of kb (Some NEXT_LABEL) = Some (MovePage ActNext None) \<longleftrightarrow> hm"
    and "map_of kb (Some BACK_LABEL) = Some (MovePage ActUp None) \<longleftrightarrow> parent (h ! pa) \<noteq> None"
    and "map_of kb l = Some (MovePage ActPrev None) \<Longrightarrow> cur > 0"
    and "map_of kb l = Some (MovePage ActCurrent None)
         \<Longrightarrow> int (length (children (h ! pa))) > obj_count_per_page (config (h ! pa))"
    and "map_of kb l = Some (MovePage ActNext None) \<Longrightarrow> hm"
    and "map_of kb l = Some (MovePage ActUp None) \<Longrightarrow> parent (h ! pa) \<noteq> None"
proof -
  note m = create_navigation_map(2)[OF nav]
  note cb = child_buttons_empty_values[of h "child_window (h ! pa) cur"]
  note neq = str_int_not_control str_int_not_control[symmetric]
    control_labels_distinct control_labels_distinct[symmetric]
  show "map_of kb (Some PREV_LABEL) = Some (MovePage ActPrev None) \<longleftrightarrow> cur > 0"
    using cb[of "Some PREV_LABEL" "MovePage ActPrev None"]
    by (auto simp: m neq split: if_splits)
  show "map_of kb (Some (str_int (cur div obj_count_per_page (config (h ! pa)) + 1)))
           = Some (MovePage ActCurrent None)
         \<longleftrightarrow> int (length (children (h ! pa))) > obj_count_per_page (config (h ! pa))"
    using cb[of "Some (str_int (cur div obj_count_per_page (config (h ! pa)) + 1))"
                "MovePage ActCurrent None"]
    by (auto simp: m neq split: if_splits)
  show "map_of kb (Some NEXT_LABEL) = Some (MovePage ActNext None) \<longleftrightarrow> hm"
    using cb[of "Some NEXT_LABEL" "MovePage ActNext None"]
    by (auto simp: m neq split: if_splits)
  show "map_of kb (Some BACK_LABEL) = Some (MovePage ActUp None) \<longleftrightarrow> parent (h ! pa) \<noteq> None"
    using cb[of "Some BACK_LABEL" "MovePage ActUp None"]
    by (auto simp: m neq split: if_splits)
  show "cur > 0" if "map_of kb l = Some (MovePage ActPrev None)"
    using that cb[of l "MovePage ActPrev None"] by (auto simp: m split: if_splits)
  show "int (length (children (h ! pa))) > obj_count_per_page (config (h ! pa))"
    if "map_of kb l = Some (MovePage ActCurrent None)"
    using that cb[of l "MovePage ActCurrent None"] by (auto simp: m split: if_splits)
  show "hm" if "map_of kb l = Some (MovePage ActNext None)"
    using that cb[of l "MovePage ActNext None"] by (auto simp: m split: if_splits)
  show "parent (h ! pa) \<noteq> None" if "map_of kb l = Some (MovePage ActUp None)"
    using that cb[of l "MovePage ActUp None"] by (auto simp: m split: if_splits)
qed

section \<open>Buttons that share a label\<close>

lemma child_buttons_append:
  "child_buttons h (w1 @ w2) kb = child_buttons h w2 (child_buttons h w1 kb)"
  by (simp add: child_buttons_def)

lemma child_buttons_other:
  "\<forall>(u, a) \<in> set w. label (content (h ! a)) \<noteq> l \<Longrightarrow>
   map_of (child_buttons h w kb) l = map_of kb l"
proof (induction w arbitrary: kb)
  case Nil
  then show ?case by (simp add: child_buttons_Nil)
next
  case (Cons x w)
  obtain u a where x: "x = (u, a)" by (cases x)
  from Cons.prems have 1: "\<forall>(u, a) \<in> set w. label (content (h ! a)) \<noteq> l"
    and 2: "label (content (h ! a)) \<noteq> l" by (auto simp: x)
  show ?case unfolding x child_buttons_Cons
    using Cons.IH[OF 1] 2 by (simp add: update_conv')
qed

lemma child_buttons_last:
  assumes "w = pre @ (u, a) # post"
    and "\<forall>(u', a') \<in> set post. label (content (h ! a')) \<noteq> label (content (h ! a))"
  shows "map_of (child_buttons h w kb) (label (content (h ! a))) = Some (MovePage ActDown (Some u))"
proof -
  have "child_buttons h w kb =
          child_buttons h post (AList.update (label (content (h ! a))) (MovePage ActDown (Some u))
             (child_buttons h pre kb))"
    unfolding assms(1) child_buttons_append child_buttons_Cons ..
  then show ?thesis
    using child_buttons_other[OF assms(2)] by (simp add: update_conv')
qed

lemma length_update_le: "length (AList.update k v al) \<le> Suc (length al)"
  by (induction al) auto

lemma length_update_present:
  "k \<in> fst ` set al \<Longrightarrow> length (AList.update k v al) = length al"
  by (induction al) auto

lemma child_buttons_length_le:
  "length (child_buttons h w kb) \<le> length kb + length w"
proof (induction w arbitrary: kb)
  case Nil
  then show ?case by (simp add: child_buttons_Nil)
next
  case (Cons x w)
  obtain u a where x: "x = (u, a)" by (cases x)
  have "length (child_buttons h w
          (AList.update (label (content (h ! a))) (MovePage ActDown (Some u)) kb))
        \<le> length (AList.update (label (content (h ! a))) (MovePage ActDown (Some u)) kb)
            + length w"
    by (rule Cons.IH)
  also have "\<dots> \<le> Suc (length kb) + length w"
    using length_update_le[of "label (content (h ! a))" _ kb] by simp
  finally show ?case by (simp add: x child_buttons_Cons)
qed

lemma child_buttons_keys:
  "fst ` set (child_buttons h w kb) = fst ` set kb \<union> (\<lambda>(u, a). label (content (h ! a))) ` set w"
proof (induction w arbitrary: kb)
  case Nil
  then show ?case by (simp add: child_buttons_Nil)
next
  case (Cons x w)
  obtain u a where x: "x = (u, a)" by (cases x)
  show ?case unfolding x child_buttons_Cons Cons.IH
    by (auto simp: dom_update)
qed

lemma child_buttons_shorter:
  assumes "w = pre @ (u1, a1) # mid @ (u2, a2) # post"
    and "label (content (h ! a1)) = label (content (h ! a2))"
  shows "length (child_buttons h w []) < length w"
proof -
  let ?l = "label (content (h ! a2))"
  let ?k1 = "child_buttons h (pre @ (u1, a1) # mid) []"
  have in1: "?l \<in> fst ` set ?k1"
    unfolding child_buttons_keys using assms(2) by force
  have l1: "length ?k1 \<le> length pre + Suc (length mid)"
    using child_buttons_length_le[of h "pre @ (u1, a1) # mid" "[]"] by simp
  have "child_buttons h w [] =
          child_buttons h post (AList.update ?l (MovePage ActDown (Some u2)) ?k1)"
    unfolding assms(1)
    using child_buttons_append[of h "pre @ (u1, a1) # mid" "(u2, a2) # post" "[]"]
    by (simp add: child_buttons_Cons)
  then have "length (child_buttons h w []) \<le>
          length (AList.update ?l (MovePage ActDown (Some u2)) ?k1) + length post"
    using child_buttons_length_le by simp
  also have "\<dots> = length ?k1 + length post"
    using length_update_present[OF in1] by simp
  also have "\<dots> < length w" using l1 by (simp add: assms(1))
  finally show ?thesis .
qed

lemma merge_kbd_Nil: "merge_kbd kb [] = kb"
  by (simp add: merge_kbd_def)

lemma merge_kbd_Cons: "merge_kbd kb ((k, v) # cs) = merge_kbd (AList.update (Some k) v kb) cs"
  by (simp add: merge_kbd_def)

lemma merge_kbd_distinct:
  "distinct (map fst kb) \<Longrightarrow> distinct (map fst (merge_kbd kb cs))"
proof (induction cs arbitrary: kb)
  case Nil
  then show ?case by (simp add: merge_kbd_Nil)
next
  case (Cons x cs)
  obtain k v where x: "x = (k, v)" by (cases x)
  show ?case unfolding x merge_kbd_Cons
    by (rule Cons.IH) (simp add: distinct_update Cons.prems)
qed

lemma merge_kbd_other:
  "l \<notin> Some ` fst ` set cs \<Longrightarrow> map_of (merge_kbd kb cs) l = map_of kb l"
proof (induction cs arbitrary: kb)
  case Nil
  then show ?case by (simp add: merge_kbd_Nil)
next
  case (Cons x cs)
  obtain k v where x: "x = (k, v)" by (cases x)
  from Cons.prems have 1: "l \<notin> Some ` fst ` set cs" and 2: "l \<noteq> Some k"
    by (auto simp: x)
  show ?case unfolding x merge_kbd_Cons
    using Cons.IH[OF 1] 2 by (simp add: update_conv')
qed

lemma merge_kbd_overrides:
  "distinct (map fst cs) \<Longrightarrow> map_of cs k = Some v \<Longrightarrow>
   map_of (merge_kbd kb cs) (Some k) = Some v"
proof (induction cs arbitrary: kb)
  case Nil
  then show ?case by simp
next
  case (Cons x cs)
  obtain k' v' where x: "x = (k', v')" by (cases x)
  show ?case
  proof (cases "k' = k")
    case True
    with Cons.prems have v: "v' = v" and notin: "k \<notin> fst ` set cs"
      by (auto simp: x)
    from notin have "Some k \<notin> Some ` fst ` set cs" by auto
    from merge_kbd_other[OF this] show ?thesis
      unfolding x merge_kbd_Cons by (simp add: update_conv' True v)
  next
    case False
    with Cons.prems have "distinct (map fst cs)" "map_of cs k = Some v"
      by (auto simp: x)
    from Cons.IH[OF this] show ?thesis unfolding x merge_kbd_Cons .
  qed
qed

lemma merge_kbd_length_le: "length (merge_kbd kb cs) \<le> length kb + length cs"
proof (induction cs arbitrary: kb)
  case Nil
  then show ?case by (simp add: merge_kbd_Nil)
next
  case (Cons x cs)
  obtain k v where x: "x = (k, v)" by (cases x)
  have "length (merge_kbd (AList.update (Some k) v kb) cs)
          \<le> length (AList.update (Some k) v kb) + length cs"
    by (rule Cons.IH)
  also have "\<dots> \<le> Suc (length kb) + length cs"
    using length_update_le[of "Some k" v kb] by simp
  finally show ?case by (simp add: x merge_kbd_Cons)
qed

text \<open>The number of control buttons \<open>create_navigation\<close> writes.\<close>

lemma create_navigation_length:
  assumes "create_navigation h pa cur hm = Inr (kb, sizes)"
  shows "length kb \<le> length (child_buttons h (child_window (h ! pa) cur) [])
           + (if cur > 0 then 1 else 0)
           + (if int (length (children (h ! pa))) > obj_count_per_page (config (h ! pa))
              then 1 else 0)
           + (if hm then 1 else 0)
           + (if parent (h ! pa) \<noteq> None then 1 else 0)"
proof -
  note le = length_update_le
  let ?k0 = "child_buttons h (child_window (h ! pa) cur) []"
  let ?k1 = "if cur > 0 then AList.update (Some PREV_LABEL) (MovePage ActPrev None) ?k0 else ?k0"
  let ?k2 = "if int (length (children (h ! pa))) > obj_count_per_page (config (h ! pa))
             then AList.update (Some (str_int (cur div obj_count_per_page (config (h ! pa)) + 1)))
                    (MovePage ActCurrent None) ?k1
             else ?k1"
  let ?k3 = "if hm then AList.update (Some NEXT_LABEL) (MovePage ActNext None) ?k2 else ?k2"
  let ?k4 = "if parent (h ! pa) \<noteq> None
             then AList.update (Some BACK_LABEL) (MovePage ActUp None) ?k3 else ?k3"
  have kb: "kb = ?k4"
    using assms by (simp add: create_navigation_def Let_def split: if_splits)
  have 1: "length ?k1 \<le> length ?k0 + (if cur > 0 then 1 else 0)"
    using le[of "Some PREV_LABEL" "MovePage ActPrev None" ?k0] by simp
  have 2: "length ?k2 \<le> length ?k1
        + (if int (length (children (h ! pa))) > obj_count_per_page (config (h ! pa))
           then 1 else 0)"
    using le[of "Some (str_int (cur div obj_count_per_page (config (h ! pa)) + 1))"
              "MovePage ActCurrent None" ?k1] by simp
  have 3: "length ?k3 \<le> length ?k2 + (if hm then 1 else 0)"
    using le[of "Some NEXT_LABEL" "MovePage ActNext None" ?k2] by simp
  have 4: "length ?k4 \<le> length ?k3 + (if parent (h ! pa) \<noteq> None then 1 else 0)"
    using le[of "Some BACK_LABEL" "MovePage ActUp None" ?k3] by simp
  show ?thesis unfolding kb using 1 2 3 4 by linarith
qed

lemma get_page_content_Inr:
  assumes "get_page_content e h pg func page_arg kw = (h', calls, Inr r)"
  shows "\<exists>hm nav sizes.
           load_step e h (case page_arg of Some a \<Rightarrow> a | None \<Rightarrow> page pg) (cursor pg)
             (choose_loader func (loader_func pg)
                (config_loader_func
                   (config (h ! (case page_arg of Some a \<Rightarrow> a | None \<Rightarrow> page pg))))) kw
             = (h', calls, Inr hm)
         \<and> create_navigation h' (case page_arg of Some a \<Rightarrow> a | None \<Rightarrow> page pg) (cursor pg) hm
             = Inr (nav, sizes)
         \<and> r_buttons r =
             merge_kbd (merge_kbd nav
               (custom_kbd (h' ! (case page_arg of Some a \<Rightarrow> a | None \<Rightarrow> page pg))))
               (global_kbd pg)"
proof -
  let ?tp = "case page_arg of Some a \<Rightarrow> a | None \<Rightarrow> page pg"
  let ?ls = "load_step e h ?tp (cursor pg)
               (choose_loader func (loader_func pg) (config_loader_func (config (h ! ?tp)))) kw"
  obtain h1 c1 l1 where ls: "?ls = (h1, c1, l1)" by (cases ?ls) auto
  show ?thesis
  proof (cases l1)
    case (Inl err)
    with assms ls show ?thesis by (simp add: get_page_content_def Let_def)
  next
    case (Inr hm)
    with assms ls have h1: "h1 = h'" and c1: "c1 = calls"
      by (simp_all add: get_page_content_def Let_def split: sum.splits prod.splits)
    show ?thesis
    proof (cases "create_navigation h' ?tp (cursor pg) hm")
      case (Inl err)
      with assms ls Inr h1 show ?thesis by (simp add: get_page_content_def Let_def)
    next
      case (Inr ns)
      obtain nav sizes where ns: "ns = (nav, sizes)" by (cases ns)
      from assms ls \<open>l1 = Inr hm\<close> h1 Inr ns
      have "r_buttons r = merge_kbd (merge_kbd nav (custom_kbd (h' ! ?tp))) (global_kbd pg)"
        by (auto simp: get_page_content_def Let_def)
      with Inr ns ls \<open>l1 = Inr hm\<close> h1 c1 show ?thesis by blast
    qed
  qed
qed

lemma nav_child_button:
  assumes nav: "create_navigation h pa cur hm = Inr (nav, sizes)"
    and win: "child_window (h ! pa) cur = pre @ (u, a) # post"
    and last: "\<forall>(u', a') \<in> set post. label (content (h ! a')) \<noteq> label (content (h ! a))"
    and nc: "label (content (h ! a)) \<notin> control_labels h pa cur"
  shows "map_of nav (label (content (h ! a))) = Some (MovePage ActDown (Some u))"
proof -
  have "map_of nav (label (content (h ! a)))
          = map_of (child_buttons h (child_window (h ! pa) cur) []) (label (content (h ! a)))"
    using nc by (simp add: create_navigation_map(2)[OF nav] control_labels_def)
  also have "\<dots> = Some (MovePage ActDown (Some u))"
    by (rule child_buttons_last[OF win last])
  finally show ?thesis .
qed

lemma rendered_child_button:
  assumes r: "get_page_content e h pg func page_arg kw = (h', calls, Inr r)"
    and tp: "tp = (case page_arg of Some a \<Rightarrow> a | None \<Rightarrow> page pg)"
    and win: "child_window (h' ! tp) (cursor pg) = pre @ (u, a) # post"
    and last: "\<forall>(u', a') \<in> set post. label (content (h' ! a')) \<noteq> label (content (h' ! a))"
    and nc: "label (content (h' ! a)) \<notin> control_labels h' tp (cursor pg)"
    and ncust: "label (content (h' ! a)) \<notin> Some ` fst ` set (custom_kbd (h' ! tp))"
    and nglob: "label (content (h' ! a)) \<notin> Some ` fst ` set (global_kbd pg)"
  shows "map_of (r_buttons r) (label (content (h' ! a))) = Some (MovePage ActDown (Some u))"
proof -
  from get_page_content_Inr[OF r] obtain hm nav sizes where
    nav: "create_navigation h' tp (cursor pg) hm = Inr (nav, sizes)"
    and b: "r_buttons r = merge_kbd (merge_kbd nav (custom_kbd (h' ! tp))) (global_kbd pg)"
    unfolding tp by blast
  show ?thesis
    unfolding b
    by (simp add: merge_kbd_other[OF nglob] merge_kbd_other[OF ncust]
          nav_child_button[OF nav win last nc])
qed

lemma str_int_1: "str_int 1 = ''1''"
  by (simp add: str_int_def str_nat.simps[of "Suc 0"] digit_char_def)

lemma faq_loaded_labels:
  "label (content (faq_loaded ! 1)) = Some ''Q1''"
  "label (content (faq_loaded ! 2)) = Some ''Q2''"
  "label (content (faq_loaded ! 3)) = Some ''Q1''"
  by (simp_all add: faq_loaded_def attached_leaf_def PageNode_init_def new_leaf_def
        leaf_content_def)

lemma faq_loaded_window:
  "child_window (faq_loaded ! 0) 0 = [(''faq_1'', 1), (''faq_2'', 2), (''faq_3'', 3)]"
  by (simp add: child_window_def py_slice_def faq_loaded_root faq_root_fields)

text \<open>
  C10. The rendered keyboard is keyed by label.  For every page rendered, no label occurs
  twice.  When two children of the displayed window have the same label and no later
  child of the window has it, the loop over the window leaves one button under that
  label, bound to the later child, so the loop yields fewer buttons than the window has
  children, and the whole page has fewer buttons than children in the window, control
  buttons, custom and global actions together; that one button is what the page shows
  under the label unless a control button, a custom or a global action has the label
  too.  A global action is shown under its label whatever was there, and so is a custom
  action whose label is not a global one: it replaces a navigation button of that label.
\<close>

theorem keyboard_is_keyed_by_label:
  assumes r: "get_page_content e h pg func page_arg kw = (h', calls, Inr r)"
    and tp: "tp = (case page_arg of Some a \<Rightarrow> a | None \<Rightarrow> page pg)"
    and w: "w = child_window (h' ! tp) (cursor pg)"
  shows "distinct (map fst (r_buttons r))
    \<and> (\<forall>pre u1 a1 mid u2 a2 post.
          w = pre @ (u1, a1) # mid @ (u2, a2) # post
          \<and> label (content (h' ! a1)) = label (content (h' ! a2))
          \<and> (\<forall>(u, a) \<in> set post. label (content (h' ! a)) \<noteq> label (content (h' ! a2)))
         \<longrightarrow> map_of (child_buttons h' w []) (label (content (h' ! a2)))
                = Some (MovePage ActDown (Some u2))
             \<and> length (child_buttons h' w []) < length w
             \<and> (\<forall>hm. load_step e h tp (cursor pg)
                        (choose_loader func (loader_func pg)
                           (config_loader_func (config (h ! tp)))) kw = (h', calls, Inr hm)
                   \<longrightarrow> length (r_buttons r)
                         < length w + control_count h' tp (cursor pg) hm
                           + length (custom_kbd (h' ! tp)) + length (global_kbd pg))
             \<and> (label (content (h' ! a2)) \<notin> control_labels h' tp (cursor pg)
                  \<and> label (content (h' ! a2)) \<notin> Some ` fst ` set (custom_kbd (h' ! tp))
                  \<and> label (content (h' ! a2)) \<notin> Some ` fst ` set (global_kbd pg)
                \<longrightarrow> map_of (r_buttons r) (label (content (h' ! a2)))
                      = Some (MovePage ActDown (Some u2))))
    \<and> (\<forall>k v. distinct (map fst (global_kbd pg)) \<and> map_of (global_kbd pg) k = Some v
          \<longrightarrow> map_of (r_buttons r) (Some k) = Some v)
    \<and> (\<forall>k v. distinct (map fst (custom_kbd (h' ! tp)))
               \<and> map_of (custom_kbd (h' ! tp)) k = Some v
               \<and> k \<notin> fst ` set (global_kbd pg)
          \<longrightarrow> map_of (r_buttons r) (Some k) = Some v)"
proof -
  from get_page_content_Inr[OF r] obtain hm0 nav sizes where
    ls: "load_step e h tp (cursor pg)
           (choose_loader func (loader_func pg) (config_loader_func (config (h ! tp)))) kw
         = (h', calls, Inr hm0)"
    and nav: "create_navigation h' tp (cursor pg) hm0 = Inr (nav, sizes)"
    and b: "r_buttons r = merge_kbd (merge_kbd nav (custom_kbd (h' ! tp))) (global_kbd pg)"
    unfolding tp by blast
  have d: "distinct (map fst (r_buttons r))"
    unfolding b by (intro merge_kbd_distinct create_navigation_map(1)[OF nav])
  have glob: "map_of (r_buttons r) (Some k) = Some v"
    if "distinct (map fst (global_kbd pg))" "map_of (global_kbd pg) k = Some v" for k v
    unfolding b by (rule merge_kbd_overrides[OF that])
  have cust: "map_of (r_buttons r) (Some k) = Some v"
    if "distinct (map fst (custom_kbd (h' ! tp)))" "map_of (custom_kbd (h' ! tp)) k = Some v"
       "k \<notin> fst ` set (global_kbd pg)" for k v
  proof -
    from that(3) have "Some k \<notin> Some ` fst ` set (global_kbd pg)" by auto
    from merge_kbd_other[OF this] show ?thesis
      unfolding b by (simp add: merge_kbd_overrides[OF that(1,2)])
  qed
  have len: "length (r_buttons r) \<le> length (child_buttons h' w []) + control_count h' tp (cursor pg) hm0
               + length (custom_kbd (h' ! tp)) + length (global_kbd pg)"
  proof -
    have "length (r_buttons r) \<le> length (merge_kbd nav (custom_kbd (h' ! tp))) + length (global_kbd pg)"
      unfolding b by (rule merge_kbd_length_le)
    also have "\<dots> \<le> length nav + length (custom_kbd (h' ! tp)) + length (global_kbd pg)"
      using merge_kbd_length_le[of nav "custom_kbd (h' ! tp)"] by simp
    also have "\<dots> \<le> length (child_buttons h' w []) + control_count h' tp (cursor pg) hm0
               + length (custom_kbd (h' ! tp)) + length (global_kbd pg)"
      using create_navigation_length[OF nav] by (simp add: control_count_def w)
    finally show ?thesis .
  qed
  have dup: "map_of (child_buttons h' w []) (label (content (h' ! a2)))
                = Some (MovePage ActDown (Some u2))
             \<and> length (child_buttons h' w []) < length w
             \<and> (\<forall>hm. load_step e h tp (cursor pg)
                        (choose_loader func (loader_func pg)
                           (config_loader_func (config (h ! tp)))) kw = (h', calls, Inr hm)
                   \<longrightarrow> length (r_buttons r)
                         < length w + control_count h' tp (cursor pg) hm
                           + length (custom_kbd (h' ! tp)) + length (global_kbd pg))
             \<and> (label (content (h' ! a2)) \<notin> control_labels h' tp (cursor pg)
                  \<and> label (content (h' ! a2)) \<notin> Some ` fst ` set (custom_kbd (h' ! tp))
                  \<and> label (content (h' ! a2)) \<notin> Some ` fst ` set (global_kbd pg)
                \<longrightarrow> map_of (r_buttons r) (label (content (h' ! a2)))
                      = Some (MovePage ActDown (Some u2)))"
    if win: "w = pre @ (u1, a1) # mid @ (u2, a2) # post"
      and same: "label (content (h' ! a1)) = label (content (h' ! a2))"
      and last: "\<forall>(u, a) \<in> set post. label (content (h' ! a)) \<noteq> label (content (h' ! a2))"
    for pre u1 a1 mid u2 a2 post
  proof (intro conjI allI impI)
    have win2: "w = (pre @ (u1, a1) # mid) @ (u2, a2) # post" using win by simp
    show "map_of (child_buttons h' w []) (label (content (h' ! a2)))
            = Some (MovePage ActDown (Some u2))"
      by (rule child_buttons_last[OF win2 last])
    show sh: "length (child_buttons h' w []) < length w"
      by (rule child_buttons_shorter[OF win same])
    show "length (r_buttons r)
            < length w + control_count h' tp (cursor pg) hm
              + length (custom_kbd (h' ! tp)) + length (global_kbd pg)"
      if "load_step e h tp (cursor pg)
            (choose_loader func (loader_func pg) (config_loader_func (config (h ! tp)))) kw
          = (h', calls, Inr hm)" for hm
    proof -
      from that ls have "hm = hm0" by simp
      with len sh show ?thesis by simp
    qed
    show "map_of (r_buttons r) (label (content (h' ! a2))) = Some (MovePage ActDown (Some u2))"
      if "label (content (h' ! a2)) \<notin> control_labels h' tp (cursor pg)
          \<and> label (content (h' ! a2)) \<notin> Some ` fst ` set (custom_kbd (h' ! tp))
          \<and> label (content (h' ! a2)) \<notin> Some ` fst ` set (global_kbd pg)"
      using rendered_child_button[OF r tp win2[unfolded w] last] that by blast
  qed
  show ?thesis
    using d dup glob cust by blast
qed

theorem keyboard_is_keyed_by_label_witness:
  "get_page_content env_three [faq_root] faq_pg None None []
     = (faq_loaded, [(''faq_loader_function'', ''faq_root'', 5, 0, [])],
        Inr \<lparr>r_text = ''You are in FAQ:'', r_image = None,
             r_buttons = [(Some ''Q1'', MovePage ActDown (Some ''faq_3'')),
                          (Some ''Q2'', MovePage ActDown (Some ''faq_2'')),
                          (Some ''To Main Menu'', CallbackStr ''goto_main_menu'')],
             r_sizes = [2, 1, 1]\<rparr>)
   \<and> child_window (faq_loaded ! 0) 0 = [(''faq_1'', 1), (''faq_2'', 2), (''faq_3'', 3)]
   \<and> label (content (faq_loaded ! 1)) = label (content (faq_loaded ! 3))
   \<and> map_of [(Some ''Q1'', MovePage ActDown (Some ''faq_3'')),
              (Some ''Q2'', MovePage ActDown (Some ''faq_2'')),
              (Some ''To Main Menu'', CallbackStr ''goto_main_menu'')] (Some ''Q1'')
       = Some (MovePage ActDown (Some ''faq_3''))
   \<and> length [(Some ''Q1'', MovePage ActDown (Some ''faq_3'')),
              (Some ''Q2'', MovePage ActDown (Some ''faq_2'')),
              (Some ''To Main Menu'', CallbackStr ''goto_main_menu'')]
       < length (child_window (faq_loaded ! 0) 0) + control_count faq_loaded 0 0 False
         + length (custom_kbd (faq_loaded ! 0)) + length (global_kbd faq_pg)"
proof -
  let ?r = "\<lparr>r_text = ''You are in FAQ:'', r_image = None,
             r_buttons = [(Some ''Q1'', MovePage ActDown (Some ''faq_3'')),
                          (Some ''Q2'', MovePage ActDown (Some ''faq_2'')),
                          (Some ''To Main Menu'', CallbackStr ''goto_main_menu'')],
             r_sizes = [2, 1, 1]\<rparr>"
  have tp: "0 = (case None of Some a \<Rightarrow> a | None \<Rightarrow> page faq_pg)"
    by (simp add: faq_pg_fields)
  note th = keyboard_is_keyed_by_label[OF faq_first_render tp refl]
  have win: "child_window (faq_loaded ! 0) (cursor faq_pg)
               = [] @ (''faq_1'', 1) # [(''faq_2'', 2)] @ (''faq_3'', 3) # []"
    by (simp add: faq_loaded_window faq_pg_fields)
  have same: "label (content (faq_loaded ! 1)) = label (content (faq_loaded ! 3))"
    by (simp only: faq_loaded_labels)
  have last: "\<forall>(u, a) \<in> set []. label (content (faq_loaded ! a)) \<noteq> label (content (faq_loaded ! 3))"
    by simp
  from th win same last
  have c: "(\<forall>hm. load_step env_three [faq_root] 0 (cursor faq_pg)
                        (choose_loader None (loader_func faq_pg)
                           (config_loader_func (config ([faq_root] ! 0)))) [] =
                   (faq_loaded, [(''faq_loader_function'', ''faq_root'', 5, 0, [])], Inr hm)
                   \<longrightarrow> length (r_buttons ?r)
                         < length (child_window (faq_loaded ! 0) (cursor faq_pg))
                           + control_count faq_loaded 0 (cursor faq_pg) hm
                           + length (custom_kbd (faq_loaded ! 0)) + length (global_kbd faq_pg))
             \<and> (label (content (faq_loaded ! 3)) \<notin> control_labels faq_loaded 0 (cursor faq_pg)
                  \<and> label (content (faq_loaded ! 3)) \<notin> Some ` fst ` set (custom_kbd (faq_loaded ! 0))
                  \<and> label (content (faq_loaded ! 3)) \<notin> Some ` fst ` set (global_kbd faq_pg)
                \<longrightarrow> map_of (r_buttons ?r) (label (content (faq_loaded ! 3)))
                      = Some (MovePage ActDown (Some ''faq_3'')))"
    by blast
  have ld: "load_step env_three [faq_root] 0 (cursor faq_pg)
                        (choose_loader None (loader_func faq_pg)
                           (config_loader_func (config ([faq_root] ! 0)))) [] =
                   (faq_loaded, [(''faq_loader_function'', ''faq_root'', 5, 0, [])], Inr False)"
    by (simp add: choose_loader_def faq_pg_fields faq_first_load)
  from c ld have len: "length (r_buttons ?r)
                         < length (child_window (faq_loaded ! 0) (cursor faq_pg))
                           + control_count faq_loaded 0 (cursor faq_pg) False
                           + length (custom_kbd (faq_loaded ! 0)) + length (global_kbd faq_pg)"
    by blast
  have nc: "label (content (faq_loaded ! 3)) \<notin> control_labels faq_loaded 0 (cursor faq_pg)"
    by (simp add: control_labels_def faq_loaded_labels faq_pg_fields faq_loaded_root
          faq_root_fields str_int_1 PREV_LABEL_def NEXT_LABEL_def BACK_LABEL_def)
  have ncg: "label (content (faq_loaded ! 3)) \<notin> Some ` fst ` set (custom_kbd (faq_loaded ! 0))"
    "label (content (faq_loaded ! 3)) \<notin> Some ` fst ` set (global_kbd faq_pg)"
    by (simp_all add: faq_loaded_labels faq_loaded_root faq_root_fields faq_pg_fields)
  from c nc ncg have m: "map_of (r_buttons ?r) (label (content (faq_loaded ! 3)))
                      = Some (MovePage ActDown (Some ''faq_3''))"
    by blast
  have c4: "map_of [(Some ''Q1'', MovePage ActDown (Some ''faq_3'')),
              (Some ''Q2'', MovePage ActDown (Some ''faq_2'')),
              (Some ''To Main Menu'', CallbackStr ''goto_main_menu'')] (Some ''Q1'')
       = Some (MovePage ActDown (Some ''faq_3''))"
    using m faq_loaded_labels(3) by simp
  have c5: "length [(Some ''Q1'', MovePage ActDown (Some ''faq_3'')),
              (Some ''Q2'', MovePage ActDown (Some ''faq_2'')),
              (Some ''To Main Menu'', CallbackStr ''goto_main_menu'')]
       < length (child_window (faq_loaded ! 0) 0) + control_count faq_loaded 0 0 False
         + length (custom_kbd (faq_loaded ! 0)) + length (global_kbd faq_pg)"
    using len by (simp add: faq_pg_fields)
  from faq_first_render faq_loaded_window same c4 c5 show ?thesis
    by (intro conjI)
qed

section \<open>The control buttons of the rendered page\<close>

lemma merge_kbd_from:
  "map_of (merge_kbd kb cs) l = Some v \<Longrightarrow> map_of kb l = Some v \<or> v \<in> snd ` set cs"
proof (induction cs arbitrary: kb)
  case Nil
  then show ?case by (simp add: merge_kbd_Nil)
next
  case (Cons x cs)
  obtain k v' where x: "x = (k, v')" by (cases x)
  from Cons.prems have "map_of (merge_kbd (AList.update (Some k) v' kb) cs) l = Some v"
    by (simp add: x merge_kbd_Cons)
  from Cons.IH[OF this] show ?case
    by (auto simp: x update_conv' split: if_splits)
qed

lemma faq_loaded_answer:
  "faq_loaded ! Suc 0 = attached_leaf ''faq_1'' ''Q1'' 0"
  by (simp add: faq_loaded_def)

lemma attached_leaf_fields:
  "uid (attached_leaf u l p) = u" "children (attached_leaf u l p) = []"
  "parent (attached_leaf u l p) = Some p" "custom_kbd (attached_leaf u l p) = []"
  "is_leaf_node (content (attached_leaf u l p))"
  "obj_count_per_page (config (attached_leaf u l p)) = 5"
  "config_loader_func (config (attached_leaf u l p)) = None"
  "content_text (content (attached_leaf u l p)) = ''answer''"
  "content_image (content (attached_leaf u l p)) = None"
  "label (content (attached_leaf u l p)) = Some l"
  by (simp_all add: attached_leaf_def PageNode_init_def new_leaf_def leaf_content_def
        default_config_def)

lemma answer_nav:
  "create_navigation faq_loaded (Suc 0) 0 False = Inr ([(Some BACK_LABEL, MovePage ActUp None)], [1])"
  by (simp add: create_navigation_def faq_loaded_answer attached_leaf_fields child_window_def
        child_buttons_def child_sizes_def Let_def)

lemma back_menu_pg_fields:
  "page back_menu_pg = 1" "cursor back_menu_pg = 0"
  "loader_func back_menu_pg = Some ''faq_loader_function''" "formatter back_menu_pg = None"
  "global_kbd back_menu_pg = [(BACK_LABEL, CallbackStr ''goto_main_menu'')]"
  by (simp_all add: back_menu_pg_def Paginator_init_def)

lemma faq_answer_pg_fields:
  "page faq_answer_pg = 1" "cursor faq_answer_pg = 0"
  "loader_func faq_answer_pg = Some ''faq_loader_function''" "formatter faq_answer_pg = None"
  "global_kbd faq_answer_pg = [(''To Main Menu'', CallbackStr ''goto_main_menu'')]"
  by (simp_all add: faq_answer_pg_def faq_pg_fields)

lemma back_menu_render:
  "get_page_content env_none faq_loaded back_menu_pg None None []
     = (faq_loaded, [],
        Inr \<lparr>r_text = ''answer'', r_image = None,
             r_buttons = [(Some BACK_LABEL, CallbackStr ''goto_main_menu'')],
             r_sizes = [1, 1]\<rparr>)"
  by (simp add: get_page_content_def back_menu_pg_fields load_step_leaf faq_loaded_answer
        attached_leaf_fields answer_nav merge_kbd_def)

lemma faq_answer_render:
  "get_page_content env_none faq_loaded faq_answer_pg None None []
     = (faq_loaded, [],
        Inr \<lparr>r_text = ''answer'', r_image = None,
             r_buttons = [(Some BACK_LABEL, MovePage ActUp None),
                          (Some ''To Main Menu'', CallbackStr ''goto_main_menu'')],
             r_sizes = [1, 1]\<rparr>)"
  by (simp add: get_page_content_def faq_answer_pg_fields load_step_leaf faq_loaded_answer
        attached_leaf_fields answer_nav merge_kbd_def BACK_LABEL_def)

text \<open>
  C7, as claimed, on the page of the first FAQ entry, which has a parent, in an engine
  whose global action carries the label of the button up: the rendered page has no
  button bound to \<open>up\<close>; the label shows the global action.
\<close>

theorem back_labelled_action_replaces_up:
  "get_page_content env_none faq_loaded back_menu_pg None None []
     = (faq_loaded, [],
        Inr \<lparr>r_text = ''answer'', r_image = None,
             r_buttons = [(Some BACK_LABEL, CallbackStr ''goto_main_menu'')],
             r_sizes = [1, 1]\<rparr>)
   \<and> parent (faq_loaded ! page back_menu_pg) = Some 0
   \<and> MovePage ActUp None \<notin> snd ` set [(Some BACK_LABEL, CallbackStr ''goto_main_menu'')]"
  by (simp add: back_menu_render back_menu_pg_fields faq_loaded_answer attached_leaf_fields)

text \<open>
  C7, amended. On every rendered page on which no custom action of the node and no
  global action of the engine carries the label of a control button: the label of
  \<open>prev\<close> is bound to \<open>prev\<close> exactly when the cursor is positive, the page-number label
  to \<open>current\<close> exactly when more children are known after the load than fit one page,
  the label of \<open>next\<close> to \<open>next\<close> exactly when the load step of this render returned
  \<open>has_more\<close>, and the label of the button up to \<open>up\<close> exactly when the node has a
  parent.  When moreover no custom or global action carries the callback of a control
  button, a button with that callback is on the page under any label exactly under
  the same conditions.
\<close>

theorem rendered_control_buttons_iff:
  assumes r: "get_page_content e h pg func page_arg kw = (h', calls, Inr r)"
    and tp: "tp = (case page_arg of Some a \<Rightarrow> a | None \<Rightarrow> page pg)"
    and nolabel: "\<forall>(k, v) \<in> set (custom_kbd (h' ! tp)) \<union> set (global_kbd pg).
                    Some k \<notin> control_labels h' tp (cursor pg)"
  shows "\<exists>has_more.
      load_step e h tp (cursor pg)
        (choose_loader func (loader_func pg) (config_loader_func (config (h ! tp)))) kw
        = (h', calls, Inr has_more)
    \<and> (map_of (r_buttons r) (Some PREV_LABEL) = Some (MovePage ActPrev None)
         \<longleftrightarrow> cursor pg > 0)
    \<and> (map_of (r_buttons r)
           (Some (str_int (cursor pg div obj_count_per_page (config (h' ! tp)) + 1)))
           = Some (MovePage ActCurrent None)
         \<longleftrightarrow> int (length (children (h' ! tp))) > obj_count_per_page (config (h' ! tp)))
    \<and> (map_of (r_buttons r) (Some NEXT_LABEL) = Some (MovePage ActNext None) \<longleftrightarrow> has_more)
    \<and> (map_of (r_buttons r) (Some BACK_LABEL) = Some (MovePage ActUp None)
         \<longleftrightarrow> parent (h' ! tp) \<noteq> None)
    \<and> ((\<forall>(k, v) \<in> set (custom_kbd (h' ! tp)) \<union> set (global_kbd pg).
           v \<notin> {MovePage ActPrev None, MovePage ActCurrent None, MovePage ActNext None,
                 MovePage ActUp None})
        \<longrightarrow> (MovePage ActPrev None \<in> snd ` set (r_buttons r) \<longleftrightarrow> cursor pg > 0)
          \<and> (MovePage ActCurrent None \<in> snd ` set (r_buttons r)
               \<longleftrightarrow> int (length (children (h' ! tp))) > obj_count_per_page (config (h' ! tp)))
          \<and> (MovePage ActNext None \<in> snd ` set (r_buttons r) \<longleftrightarrow> has_more)
          \<and> (MovePage ActUp None \<in> snd ` set (r_buttons r) \<longleftrightarrow> parent (h' ! tp) \<noteq> None))"
proof -
  from get_page_content_Inr[OF r] obtain hm nav sizes where
    ls: "load_step e h tp (cursor pg)
           (choose_loader func (loader_func pg) (config_loader_func (config (h ! tp)))) kw
         = (h', calls, Inr hm)"
    and nav: "create_navigation h' tp (cursor pg) hm = Inr (nav, sizes)"
    and b: "r_buttons r = merge_kbd (merge_kbd nav (custom_kbd (h' ! tp))) (global_kbd pg)"
    unfolding tp by blast
  note c = nav_controls[OF nav]
  have same: "map_of (r_buttons r) l = map_of nav l" if "l \<in> control_labels h' tp (cursor pg)" for l
  proof -
    from that nolabel have 1: "l \<notin> Some ` fst ` set (custom_kbd (h' ! tp))"
      and 2: "l \<notin> Some ` fst ` set (global_kbd pg)"
      by fastforce+
    show ?thesis unfolding b by (simp add: merge_kbd_other[OF 2] merge_kbd_other[OF 1])
  qed
  have p1: "map_of (r_buttons r) (Some PREV_LABEL) = Some (MovePage ActPrev None)
         \<longleftrightarrow> cursor pg > 0"
    using c(1) by (simp add: same control_labels_def)
  have p2: "map_of (r_buttons r)
           (Some (str_int (cursor pg div obj_count_per_page (config (h' ! tp)) + 1)))
           = Some (MovePage ActCurrent None)
         \<longleftrightarrow> int (length (children (h' ! tp))) > obj_count_per_page (config (h' ! tp))"
    using c(2) by (simp add: same control_labels_def)
  have p3: "map_of (r_buttons r) (Some NEXT_LABEL) = Some (MovePage ActNext None) \<longleftrightarrow> hm"
    using c(3) by (simp add: same control_labels_def)
  have p4: "map_of (r_buttons r) (Some BACK_LABEL) = Some (MovePage ActUp None)
         \<longleftrightarrow> parent (h' ! tp) \<noteq> None"
    using c(4) by (simp add: same control_labels_def)
  have d: "distinct (map fst (r_buttons r))"
    unfolding b by (intro merge_kbd_distinct create_navigation_map(1)[OF nav])
  note v = values_iff_map_of[OF d]
  have vals: "(MovePage ActPrev None \<in> snd ` set (r_buttons r) \<longleftrightarrow> cursor pg > 0)
          \<and> (MovePage ActCurrent None \<in> snd ` set (r_buttons r)
               \<longleftrightarrow> int (length (children (h' ! tp))) > obj_count_per_page (config (h' ! tp)))
          \<and> (MovePage ActNext None \<in> snd ` set (r_buttons r) \<longleftrightarrow> hm)
          \<and> (MovePage ActUp None \<in> snd ` set (r_buttons r) \<longleftrightarrow> parent (h' ! tp) \<noteq> None)"
    if nv: "\<forall>(k, v) \<in> set (custom_kbd (h' ! tp)) \<union> set (global_kbd pg).
           v \<notin> {MovePage ActPrev None, MovePage ActCurrent None, MovePage ActNext None,
                 MovePage ActUp None}"
  proof -
    have from_nav: "map_of nav l = Some x"
      if "map_of (r_buttons r) l = Some x"
        "x \<in> {MovePage ActPrev None, MovePage ActCurrent None, MovePage ActNext None,
               MovePage ActUp None}" for l x
    proof -
      from nv that(2) have n1: "x \<notin> snd ` set (custom_kbd (h' ! tp))"
        and n2: "x \<notin> snd ` set (global_kbd pg)"
        by fastforce+
      from that(1) have "map_of (merge_kbd nav (custom_kbd (h' ! tp))) l = Some x"
        unfolding b using merge_kbd_from n2 by blast
      then show ?thesis using merge_kbd_from n1 by blast
    qed
    have q1: "MovePage ActPrev None \<in> snd ` set (r_buttons r) \<longleftrightarrow> cursor pg > 0"
      unfolding v using p1 c(5) from_nav by blast
    have q2: "MovePage ActCurrent None \<in> snd ` set (r_buttons r)
               \<longleftrightarrow> int (length (children (h' ! tp))) > obj_count_per_page (config (h' ! tp))"
      unfolding v using p2 c(6) from_nav by blast
    have q3: "MovePage ActNext None \<in> snd ` set (r_buttons r) \<longleftrightarrow> hm"
      unfolding v using p3 c(7) from_nav by blast
    have q4: "MovePage ActUp None \<in> snd ` set (r_buttons r) \<longleftrightarrow> parent (h' ! tp) \<noteq> None"
      unfolding v using p4 c(8) from_nav by blast
    from q1 q2 q3 q4 show ?thesis by (intro conjI)
  qed
  from vals have vals':
    "(\<forall>(k, v) \<in> set (custom_kbd (h' ! tp)) \<union> set (global_kbd pg).
           v \<notin> {MovePage ActPrev None, MovePage ActCurrent None, MovePage ActNext None,
                 MovePage ActUp None})
        \<longrightarrow> (MovePage ActPrev None \<in> snd ` set (r_buttons r) \<longleftrightarrow> cursor pg > 0)
          \<and> (MovePage ActCurrent None \<in> snd ` set (r_buttons r)
               \<longleftrightarrow> int (length (children (h' ! tp))) > obj_count_per_page (config (h' ! tp)))
          \<and> (MovePage ActNext None \<in> snd ` set (r_buttons r) \<longleftrightarrow> hm)
          \<and> (MovePage ActUp None \<in> snd ` set (r_buttons r) \<longleftrightarrow> parent (h' ! tp) \<noteq> None)"
    by (rule impI)
  from ls p1 p2 p3 p4 vals' show ?thesis by (intro exI[of _ hm] conjI)
qed

theorem rendered_control_buttons_iff_witness:
  "get_page_content env_none faq_loaded faq_answer_pg None None []
     = (faq_loaded, [],
        Inr \<lparr>r_text = ''answer'', r_image = None,
             r_buttons = [(Some BACK_LABEL, MovePage ActUp None),
                          (Some ''To Main Menu'', CallbackStr ''goto_main_menu'')],
             r_sizes = [1, 1]\<rparr>)
   \<and> parent (faq_loaded ! page faq_answer_pg) = Some 0
   \<and> cursor faq_answer_pg = 0
   \<and> length (children (faq_loaded ! page faq_answer_pg)) = 0
   \<and> map_of [(Some BACK_LABEL, MovePage ActUp None),
              (Some ''To Main Menu'', CallbackStr ''goto_main_menu'')] (Some BACK_LABEL)
       = Some (MovePage ActUp None)
   \<and> MovePage ActUp None \<in> snd ` set [(Some BACK_LABEL, MovePage ActUp None),
              (Some ''To Main Menu'', CallbackStr ''goto_main_menu'')]
   \<and> MovePage ActPrev None \<notin> snd ` set [(Some BACK_LABEL, MovePage ActUp None),
              (Some ''To Main Menu'', CallbackStr ''goto_main_menu'')]
   \<and> MovePage ActCurrent None \<notin> snd ` set [(Some BACK_LABEL, MovePage ActUp None),
              (Some ''To Main Menu'', CallbackStr ''goto_main_menu'')]"
proof -
  let ?b = "[(Some BACK_LABEL, MovePage ActUp None),
             (Some ''To Main Menu'', CallbackStr ''goto_main_menu'')]"
  have tp: "Suc 0 = (case None of Some a \<Rightarrow> a | None \<Rightarrow> page faq_answer_pg)"
    by (simp add: faq_answer_pg_fields)
  have f: "parent (faq_loaded ! Suc 0) = Some 0" "children (faq_loaded ! Suc 0) = []"
    "custom_kbd (faq_loaded ! Suc 0) = []"
    "obj_count_per_page (config (faq_loaded ! Suc 0)) = 5"
    by (simp_all add: faq_loaded_answer attached_leaf_fields)
  have menu: "''To Main Menu'' \<noteq> PREV_LABEL" "''To Main Menu'' \<noteq> NEXT_LABEL"
    "''To Main Menu'' \<noteq> BACK_LABEL" "''To Main Menu'' \<noteq> ''1''"
    by (simp_all add: PREV_LABEL_def NEXT_LABEL_def BACK_LABEL_def)
  have nolabel: "\<forall>(k, v) \<in> set (custom_kbd (faq_loaded ! Suc 0)) \<union> set (global_kbd faq_answer_pg).
                    Some k \<notin> control_labels faq_loaded (Suc 0) (cursor faq_answer_pg)"
    by (simp add: f faq_answer_pg_fields control_labels_def str_int_1 menu)
  have novalue: "\<forall>(k, v) \<in> set (custom_kbd (faq_loaded ! Suc 0)) \<union> set (global_kbd faq_answer_pg).
           v \<notin> {MovePage ActPrev None, MovePage ActCurrent None, MovePage ActNext None,
                 MovePage ActUp None}"
    by (simp add: f faq_answer_pg_fields)
  from rendered_control_buttons_iff[OF faq_answer_render tp nolabel] novalue
  have a: "map_of ?b (Some BACK_LABEL) = Some (MovePage ActUp None)
             \<longleftrightarrow> parent (faq_loaded ! Suc 0) \<noteq> None"
    and b: "MovePage ActUp None \<in> snd ` set ?b \<longleftrightarrow> parent (faq_loaded ! Suc 0) \<noteq> None"
    and c: "MovePage ActPrev None \<in> snd ` set ?b \<longleftrightarrow> cursor faq_answer_pg > 0"
    and d: "MovePage ActCurrent None \<in> snd ` set ?b
             \<longleftrightarrow> int (length (children (faq_loaded ! Suc 0)))
                   > obj_count_per_page (config (faq_loaded ! Suc 0))"
    by auto
  have 1: "map_of ?b (Some BACK_LABEL) = Some (MovePage ActUp None)"
    using a by (simp add: f)
  have 2: "MovePage ActUp None \<in> snd ` set ?b" using b by (simp add: f)
  have 3: "MovePage ActPrev None \<notin> snd ` set ?b" using c by (simp add: faq_answer_pg_fields)
  have 4: "MovePage ActCurrent None \<notin> snd ` set ?b" using d by (simp add: f)
  have 5: "parent (faq_loaded ! page faq_answer_pg) = Some 0"
    "cursor faq_answer_pg = 0" "length (children (faq_loaded ! page faq_answer_pg)) = 0"
    by (simp_all add: f faq_answer_pg_fields)
  from faq_answer_render 1 2 3 4 5 show ?thesis by (intro conjI)
qed

section \<open>The cursor invariant\<close>













































section \<open>Down into a child and up again\<close>





















end
